theory Spec2Isabelle
  imports Main "HOL-Library.Sublist"
begin

section \<open>Decimal text of natural numbers\<close>

text \<open>
  Motoko's \<open>Nat.toText\<close> and JavaScript's \<open>BigInt.prototype.toString\<close> both print a
  non-negative integer in decimal without leading zeros. Every bigint of the client is
  the image of a Candid \<open>nat\<close>, one of the literals 0..3, or the reading of such a text,
  so bigints are modelled as \<open>nat\<close>.
\<close>

definition digit :: "nat \<Rightarrow> char" where
  "digit d = char_of (48 + d)"

function toText :: "nat \<Rightarrow> string" where
  "toText n = (if n < 10 then [digit n] else toText (n div 10) @ [digit (n mod 10)])"
  by pat_completeness auto
termination
  by (relation "measure (\<lambda>n. n)") auto

declare toText.simps [simp del]

definition isDigit :: "char \<Rightarrow> bool" where
  "isDigit c = (48 \<le> (of_char c :: nat) \<and> (of_char c :: nat) \<le> 57)"

definition digitVal :: "char \<Rightarrow> nat" where
  "digitVal c = of_char c - 48"

text \<open>
  \<open>BigInt(text)\<close>: the value of a string of decimal digits (the empty string reads as 0);
  \<open>None\<close> is the SyntaxError thrown on any other text. The signed, hexadecimal and
  blank-padded forms that JavaScript also accepts are never written by the code and are
  read as an error here.
\<close>

definition BigInt :: "string \<Rightarrow> nat option" where
  "BigInt s = (if list_all isDigit s then Some (foldl (\<lambda>a c. 10 * a + digitVal c) 0 s) else None)"

section \<open>The canister (main.mo)\<close>

type_synonym principal = string

datatype UserRole = admin | user | guest

text \<open>
  \<open>AccessControl.hasPermission(accessControlState, caller, role)\<close>: the module is not
  part of the sources, so the check is a parameter of every operation.
\<close>

type_synonym permission = "principal \<Rightarrow> UserRole \<Rightarrow> bool"

text \<open>The coordinates of a location (two floats) are read by no progress operation and are left out.\<close>

record StoryLocation =
  id' :: string
  title :: string
  content :: string
  audioUrl :: "string option"
  sequenceNumber :: nat
  nextLocationHint :: string

record MainProgress =
  stage1 :: bool
  stage2 :: bool
  stage3 :: bool

record UserProgress =
  lastCompletedLocation :: nat
  completedLocations :: "nat list"
  currentSequences :: "nat list"
  totalLocations :: nat
  mainProgress :: MainProgress

record canister =
  userProgress :: "principal \<rightharpoonup> UserProgress"
  storyLocations :: "string \<rightharpoonup> StoryLocation"

definition initialProgress :: UserProgress where
  "initialProgress =
     \<lparr>lastCompletedLocation = 0, completedLocations = [], currentSequences = [],
      totalLocations = 3,
      mainProgress = \<lparr>stage1 = False, stage2 = False, stage3 = False\<rparr>\<rparr>"

definition ensureProgressInitialized ::
  "permission \<Rightarrow> canister \<Rightarrow> principal \<Rightarrow> UserProgress \<times> canister" where
  "ensureProgressInitialized hp s u =
     (case userProgress s u of
        Some progress \<Rightarrow> (progress, s)
      | None \<Rightarrow>
          (initialProgress,
           if hp u user then s\<lparr>userProgress := (userProgress s)(u \<mapsto> initialProgress)\<rparr> else s))"

definition isLocationCompleted :: "nat list \<Rightarrow> nat \<Rightarrow> bool" where
  "isLocationCompleted cl n = (find (\<lambda>completed. completed = n) cl \<noteq> None)"

text \<open>
  A shared (update) method returns its value and the new state, or traps with a message.
  A trap rolls the state of the canister back to what it was before the call, so the
  error branch carries no state.
\<close>

definition updateMainProgress ::
  "permission \<Rightarrow> canister \<Rightarrow> principal \<Rightarrow> nat \<Rightarrow> string + canister" where
  "updateMainProgress hp s caller stage =
     (if \<not> hp caller user then
        Inl ''Unauthorized: Only authenticated users can update progress''
      else if stage < 1 \<or> stage > 3 then
        Inl ''Invalid stage: Must be between 1 and 3''
      else
        (case ensureProgressInitialized hp s caller of
           (currentProgress, s1) \<Rightarrow>
             let updatedMainProgress =
                   (if stage = 1 then
                      \<lparr>stage1 = True,
                       stage2 = stage2 (mainProgress currentProgress),
                       stage3 = stage3 (mainProgress currentProgress)\<rparr>
                    else if stage = 2 then
                      \<lparr>stage1 = stage1 (mainProgress currentProgress),
                       stage2 = True,
                       stage3 = stage3 (mainProgress currentProgress)\<rparr>
                    else if stage = 3 then
                      \<lparr>stage1 = stage1 (mainProgress currentProgress),
                       stage2 = stage2 (mainProgress currentProgress),
                       stage3 = True\<rparr>
                    else mainProgress currentProgress);
                 updatedProgress = currentProgress\<lparr>mainProgress := updatedMainProgress\<rparr>
             in Inr (s1\<lparr>userProgress := (userProgress s1)(caller \<mapsto> updatedProgress)\<rparr>)))"

definition updateProgress ::
  "permission \<Rightarrow> canister \<Rightarrow> principal \<Rightarrow> string \<Rightarrow> nat list \<Rightarrow> string + (UserProgress \<times> canister)" where
  "updateProgress hp s caller locationId workingSequences =
     (if \<not> hp caller user then
        Inl ''Unauthorized: Only authenticated users can save progress to backend. Guests should use localStorage.''
      else
        (case storyLocations s locationId of
           None \<Rightarrow> Inl ''Invalid location ID: Location not found''
         | Some location \<Rightarrow>
             (case ensureProgressInitialized hp s caller of
                (currentProgress, s1) \<Rightarrow>
                  if isLocationCompleted (completedLocations currentProgress) (sequenceNumber location) then
                    Inr (currentProgress, s1)
                  else if sequenceNumber location < 1
                          \<or> sequenceNumber location > totalLocations currentProgress then
                    Inl (''Invalid sequence number: Out of range (1-''
                         @ toText (totalLocations currentProgress) @ '')'')
                  else
                    let newCompletedLocations = completedLocations currentProgress @ [sequenceNumber location];
                        completedCount = length newCompletedLocations;
                        updatedMainProgress =
                          \<lparr>stage1 = completedCount \<ge> 1,
                           stage2 = completedCount \<ge> 2,
                           stage3 = completedCount \<ge> 3\<rparr>;
                        newProgress =
                          \<lparr>lastCompletedLocation = sequenceNumber location,
                           completedLocations = newCompletedLocations,
                           currentSequences = workingSequences,
                           totalLocations = totalLocations currentProgress,
                           mainProgress = updatedMainProgress\<rparr>
                    in Inr (newProgress, s1\<lparr>userProgress := (userProgress s1)(caller \<mapsto> newProgress)\<rparr>))))"

text \<open>
  \<open>getUserProgress\<close> is a query method: it answers from the state it is given, and what
  \<open>ensureProgressInitialized\<close> adds during a query is not kept by the canister.
\<close>

definition getUserProgress :: "permission \<Rightarrow> canister \<Rightarrow> principal \<Rightarrow> string + UserProgress" where
  "getUserProgress hp s caller =
     (if \<not> hp caller user then
        Inl ''Unauthorized: Only authenticated users can retrieve progress from backend''
      else Inr (fst (ensureProgressInitialized hp s caller)))"

definition location1 :: StoryLocation where
  "location1 =
     \<lparr>id' = ''location_1'',
      title = ''Neristan - The Old Wooden Town'',
      content = ''Seek out a porcelain dog in a window. What direction is it facing? Does it hint at someone lost or someone returned?'',
      audioUrl = Some ''ElevenLabs_Text_to_Speech_audio.mp3'',
      sequenceNumber = 1,
      nextLocationHint = ''Head to the Halkokari skirmish monument''\<rparr>"

definition location2 :: StoryLocation where
  "location2 =
     \<lparr>id' = ''location_2'',
      title = ''Halkokari Skirmish Monument'',
      content = ''Find the memorial/park marker dedicated to the battle. What year did this clash take place?'',
      audioUrl = Some ''Location_2_audio.mp3'',
      sequenceNumber = 2,
      nextLocationHint = ''Continue your journey to the next location''\<rparr>"

definition initializeLocations :: "permission \<Rightarrow> canister \<Rightarrow> principal \<Rightarrow> string + canister" where
  "initializeLocations hp s caller =
     (if \<not> hp caller admin then
        Inl ''Unauthorized: Only admins can initialize story locations''
      else
        Inr (s\<lparr>storyLocations :=
                 (storyLocations s)(id' location1 \<mapsto> location1, id' location2 \<mapsto> location2)\<rparr>))"

subsection \<open>Sequences of calls\<close>

datatype call =
    UpdateProgress principal string "nat list"
  | UpdateMainProgress principal nat
  | GetUserProgress principal
  | InitializeLocations principal

text \<open>The state the canister keeps after a call: the new state, or the old one after a trap or a query.\<close>

fun exec :: "permission \<Rightarrow> call \<Rightarrow> canister \<Rightarrow> canister" where
  "exec hp (UpdateProgress caller locationId ws) s =
     (case updateProgress hp s caller locationId ws of Inl _ \<Rightarrow> s | Inr (_, s') \<Rightarrow> s')"
| "exec hp (UpdateMainProgress caller stage) s =
     (case updateMainProgress hp s caller stage of Inl _ \<Rightarrow> s | Inr s' \<Rightarrow> s')"
| "exec hp (GetUserProgress caller) s = s"
| "exec hp (InitializeLocations caller) s =
     (case initializeLocations hp s caller of Inl _ \<Rightarrow> s | Inr s' \<Rightarrow> s')"

fun run :: "permission \<Rightarrow> call list \<Rightarrow> canister \<Rightarrow> canister" where
  "run hp [] s = s"
| "run hp (c # cs) s = run hp cs (exec hp c s)"

definition initial :: "(string \<rightharpoonup> StoryLocation) \<Rightarrow> canister" where
  "initial locations = \<lparr>userProgress = Map.empty, storyLocations = locations\<rparr>"

text \<open>The completions the canister holds for an identity (none before its record exists).\<close>

definition completedOf :: "canister \<Rightarrow> principal \<Rightarrow> nat list" where
  "completedOf s u = (case userProgress s u of None \<Rightarrow> [] | Some p \<Rightarrow> completedLocations p)"

definition flagsConsistent :: "UserProgress \<Rightarrow> bool" where
  "flagsConsistent p =
     (stage1 (mainProgress p) = (length (completedLocations p) \<ge> 1)
      \<and> stage2 (mainProgress p) = (length (completedLocations p) \<ge> 2)
      \<and> stage3 (mainProgress p) = (length (completedLocations p) \<ge> 3))"

text \<open>The flags cover the completions: stageN is set whenever at least N locations are completed.\<close>

definition flagsCover :: "UserProgress \<Rightarrow> bool" where
  "flagsCover p =
     ((length (completedLocations p) \<ge> 1 \<longrightarrow> stage1 (mainProgress p))
      \<and> (length (completedLocations p) \<ge> 2 \<longrightarrow> stage2 (mainProgress p))
      \<and> (length (completedLocations p) \<ge> 3 \<longrightarrow> stage3 (mainProgress p)))"

text \<open>The flags with the one of the given stage (1, 2 or 3) set.\<close>

definition setStage :: "nat \<Rightarrow> MainProgress \<Rightarrow> MainProgress" where
  "setStage stage m =
     (if stage = 1 then \<lparr>stage1 = True, stage2 = stage2 m, stage3 = stage3 m\<rparr>
      else if stage = 2 then \<lparr>stage1 = stage1 m, stage2 = True, stage3 = stage3 m\<rparr>
      else \<lparr>stage1 = stage1 m, stage2 = stage2 m, stage3 = True\<rparr>)"

definition isUpdateMainProgress :: "call \<Rightarrow> bool" where
  "isUpdateMainProgress c = (case c of UpdateMainProgress _ _ \<Rightarrow> True | _ \<Rightarrow> False)"

section \<open>The client (useQueries.ts, QuestTaskPopup.tsx)\<close>

text \<open>\<open>String.prototype.includes\<close>: the second string occurs in the first as a contiguous run.\<close>

fun includesStr :: "string \<Rightarrow> string \<Rightarrow> bool" where
  "includesStr [] sub = (sub = [])"
| "includesStr (c # cs) sub = (prefix sub (c # cs) \<or> includesStr cs sub)"

text \<open>
  The item kept in \<open>localStorage\<close> under the key \<open>userProgress\<close>. Only
  \<open>saveProgressToLocalStorage\<close> creates it, so it always has these fields; the integers
  are kept as decimal strings. \<open>JSON.parse\<close> after \<open>JSON.stringify\<close> is taken to give
  back the object of strings, booleans and the timestamp that was written.
\<close>

record stored =
  st_lastCompletedLocation :: string
  st_totalLocations :: string
  st_completedLocations :: "string list"
  st_mainProgress :: MainProgress
  st_currentSequences :: "string list"
  st_timestamp :: nat
  st_synced :: bool

text \<open>
  A call of the actor is either delivered to the canister or rejected on the way with an
  error message; \<open>network\<close> lists what happens to the coming calls, and every call after
  the end of the list meets \<open>thereafter\<close>.
\<close>

datatype delivery = Delivered | Failed string

record world =
  backend :: canister
  localStorage :: "stored option"
  queryData :: "UserProgress option"
  network :: "delivery list"
  thereafter :: delivery
  clock :: nat

definition nextOutcome :: "world \<Rightarrow> delivery" where
  "nextOutcome w = (case network w of [] \<Rightarrow> thereafter w | d # _ \<Rightarrow> d)"

text \<open>\<open>await new Promise(resolve => setTimeout(resolve, delay))\<close> moves \<open>Date.now()\<close> on.\<close>

definition sleep :: "nat \<Rightarrow> world \<Rightarrow> world" where
  "sleep delay w = w\<lparr>clock := clock w + delay\<rparr>"

definition actor_updateProgress ::
  "permission \<Rightarrow> principal \<Rightarrow> string \<Rightarrow> nat list \<Rightarrow> world \<Rightarrow> (string + UserProgress) \<times> world" where
  "actor_updateProgress hp me locationId ws w =
     (case nextOutcome w of
        Failed message \<Rightarrow> (Inl message, w\<lparr>network := tl (network w)\<rparr>)
      | Delivered \<Rightarrow>
          (case updateProgress hp (backend w) me locationId ws of
             Inl message \<Rightarrow> (Inl message, w\<lparr>network := tl (network w)\<rparr>)
           | Inr (progress, b) \<Rightarrow> (Inr progress, w\<lparr>backend := b, network := tl (network w)\<rparr>)))"

definition actor_getUserProgress ::
  "permission \<Rightarrow> principal \<Rightarrow> world \<Rightarrow> (string + UserProgress) \<times> world" where
  "actor_getUserProgress hp me w =
     (case nextOutcome w of
        Failed message \<Rightarrow> (Inl message, w\<lparr>network := tl (network w)\<rparr>)
      | Delivered \<Rightarrow>
          (case getUserProgress hp (backend w) me of
             Inl message \<Rightarrow> (Inl message, w\<lparr>network := tl (network w)\<rparr>)
           | Inr progress \<Rightarrow> (Inr progress, w\<lparr>network := tl (network w)\<rparr>)))"

subsection \<open>The cache in localStorage\<close>

text \<open>The write to \<open>localStorage\<close> is taken to succeed (the function then returns true).\<close>

definition saveProgressToLocalStorage :: "UserProgress \<Rightarrow> world \<Rightarrow> world" where
  "saveProgressToLocalStorage progress w =
     w\<lparr>localStorage := Some
         \<lparr>st_lastCompletedLocation = toText (lastCompletedLocation progress),
          st_totalLocations = toText (totalLocations progress),
          st_completedLocations = map toText (completedLocations progress),
          st_mainProgress = mainProgress progress,
          st_currentSequences = map toText (currentSequences progress),
          st_timestamp = clock w,
          st_synced = True\<rparr>\<rparr>"

text \<open>\<open>BigInt(text || fallback)\<close>: the empty string is the only falsy string.\<close>

definition bigIntOr :: "string \<Rightarrow> nat \<Rightarrow> nat option" where
  "bigIntOr s fallback = (if s = [] then Some fallback else BigInt s)"

definition loadProgressFromLocalStorage :: "world \<Rightarrow> UserProgress option" where
  "loadProgressFromLocalStorage w =
     (case localStorage w of
        None \<Rightarrow> None
      | Some parsed \<Rightarrow>
          (case bigIntOr (st_lastCompletedLocation parsed) 0 of
             None \<Rightarrow> None
           | Some lastCompleted \<Rightarrow>
               (case bigIntOr (st_totalLocations parsed) 3 of
                  None \<Rightarrow> None
                | Some totalNumber \<Rightarrow>
                    (case those (map BigInt (st_completedLocations parsed)) of
                       None \<Rightarrow> None
                     | Some completed \<Rightarrow>
                         (case those (map BigInt (st_currentSequences parsed)) of
                            None \<Rightarrow> None
                          | Some sequences \<Rightarrow>
                              Some \<lparr>lastCompletedLocation = lastCompleted,
                                    completedLocations = completed,
                                    currentSequences = sequences,
                                    totalLocations = totalNumber,
                                    mainProgress = st_mainProgress parsed\<rparr>)))))"

definition markProgressAsUnsynced :: "world \<Rightarrow> world" where
  "markProgressAsUnsynced w =
     (case localStorage w of
        None \<Rightarrow> w
      | Some parsed \<Rightarrow>
          w\<lparr>localStorage := Some (parsed\<lparr>st_synced := False, st_timestamp := clock w\<rparr>)\<rparr>)"

definition hasUnsyncedProgress :: "world \<Rightarrow> bool" where
  "hasUnsyncedProgress w =
     (case localStorage w of None \<Rightarrow> False | Some parsed \<Rightarrow> st_synced parsed = False)"

text \<open>The block "Mark as synced" that \<open>syncUnsyncedProgress\<close> contains twice.\<close>

definition markAsSynced :: "world \<Rightarrow> world" where
  "markAsSynced w =
     (case localStorage w of
        None \<Rightarrow> w
      | Some parsed \<Rightarrow> w\<lparr>localStorage := Some (parsed\<lparr>st_synced := True\<rparr>)\<rparr>)"

definition locationNumberOf :: "string \<Rightarrow> nat" where
  "locationNumberOf locationId =
     (if locationId = ''location_1'' then 1 else if locationId = ''location_2'' then 2 else 3)"

subsection \<open>Verification by reading back\<close>

record verification =
  verified :: bool
  vprogress :: "UserProgress option"
  verror :: "string option"

function verifyLoop ::
  "permission \<Rightarrow> principal \<Rightarrow> nat \<Rightarrow> nat \<Rightarrow> nat \<Rightarrow> world \<Rightarrow> verification \<times> world" where
  "verifyLoop hp me locationNumber maxRetries attempt w =
     (if attempt \<le> maxRetries then
        (case actor_getUserProgress hp me (sleep (300 * 2 ^ (attempt - 1)) w) of
           (Inr progress, w1) \<Rightarrow>
             if list_ex (\<lambda>loc. loc = locationNumber) (completedLocations progress) then
               (\<lparr>verified = True, vprogress = Some progress, verror = None\<rparr>, w1)
             else verifyLoop hp me locationNumber maxRetries (attempt + 1) w1
         | (Inl message, w1) \<Rightarrow>
             if attempt = maxRetries then
               (\<lparr>verified = False, vprogress = None,
                 verror = Some (if message = [] then ''Verification failed'' else message)\<rparr>, w1)
             else verifyLoop hp me locationNumber maxRetries (attempt + 1) w1)
      else
        (\<lparr>verified = False, vprogress = None,
          verror = Some ''Progress not found in backend after all verification attempts''\<rparr>, w))"
  by pat_completeness auto
termination
  by (relation "measure (\<lambda>(hp, me, n, maxRetries, attempt, w). Suc maxRetries - attempt)") auto

declare verifyLoop.simps [simp del]

definition verifyProgressSaved ::
  "permission \<Rightarrow> principal \<Rightarrow> string \<Rightarrow> nat \<Rightarrow> world \<Rightarrow> verification \<times> world" where
  "verifyProgressSaved hp me expectedLocationId maxRetries w =
     verifyLoop hp me (locationNumberOf expectedLocationId) maxRetries 1 w"

subsection \<open>Reconciliation\<close>

fun syncLoop ::
  "permission \<Rightarrow> principal \<Rightarrow> nat list \<Rightarrow> nat list \<Rightarrow> world \<Rightarrow> bool \<times> world" where
  "syncLoop hp me sequences [] w = (True, w)"
| "syncLoop hp me sequences (locationNum # rest) w =
     (case actor_updateProgress hp me (''location_'' @ toText locationNum) sequences w of
        (Inr _, w1) \<Rightarrow> syncLoop hp me sequences rest w1
      | (Inl _, w1) \<Rightarrow> (False, w1))"

definition newLocationsOf :: "UserProgress \<Rightarrow> UserProgress \<Rightarrow> nat list" where
  "newLocationsOf cachedProgress backendProgress =
     filter (\<lambda>loc. \<not> list_ex (\<lambda>bLoc. bLoc = loc) (completedLocations backendProgress))
       (completedLocations cachedProgress)"

definition syncUnsyncedProgress :: "permission \<Rightarrow> principal \<Rightarrow> world \<Rightarrow> bool \<times> world" where
  "syncUnsyncedProgress hp me w =
     (if \<not> hasUnsyncedProgress w then (True, w)
      else
        (case loadProgressFromLocalStorage w of
           None \<Rightarrow> (True, w)
         | Some cachedProgress \<Rightarrow>
             (case actor_getUserProgress hp me w of
                (Inl _, w1) \<Rightarrow> (False, w1)
              | (Inr backendProgress, w1) \<Rightarrow>
                  let newLocations = newLocationsOf cachedProgress backendProgress in
                  if length newLocations = 0 then (True, markAsSynced w1)
                  else
                    (case syncLoop hp me (currentSequences cachedProgress) newLocations w1 of
                       (False, w2) \<Rightarrow> (False, w2)
                     | (True, w2) \<Rightarrow> (True, markAsSynced w2)))))"

subsection \<open>The query of useGetUserProgress\<close>

definition defaultProgress :: UserProgress where
  "defaultProgress =
     \<lparr>lastCompletedLocation = 0, completedLocations = [], currentSequences = [],
      totalLocations = 3,
      mainProgress = \<lparr>stage1 = False, stage2 = False, stage3 = False\<rparr>\<rparr>"

text \<open>
  The query function of \<open>useGetUserProgress\<close>; its value becomes the query data. It throws
  nothing: the catch block returns the cached or the default record, so the retries of the query
  never run.
\<close>

definition queryFn :: "permission \<Rightarrow> principal \<Rightarrow> world \<Rightarrow> UserProgress \<times> world" where
  "queryFn hp me w =
     (case syncUnsyncedProgress hp me w of
        (_, w1) \<Rightarrow>
          (case actor_getUserProgress hp me w1 of
             (Inr backendProgress, w2) \<Rightarrow>
               (backendProgress,
                (saveProgressToLocalStorage backendProgress w2)\<lparr>queryData := Some backendProgress\<rparr>)
           | (Inl _, w2) \<Rightarrow>
               (case loadProgressFromLocalStorage w2 of
                  Some cachedProgress \<Rightarrow>
                    (cachedProgress, (markProgressAsUnsynced w2)\<lparr>queryData := Some cachedProgress\<rparr>)
                | None \<Rightarrow> (defaultProgress, w2\<lparr>queryData := Some defaultProgress\<rparr>))))"

text \<open>
  The page that shows the popup observes this query (\<open>useGetUserProgress\<close> in the home page), so
  \<open>invalidateQueries\<close> runs the query function again. A refetch that is not awaited
  (\<open>onSettled\<close>) is taken to have finished before the caller's next step.
\<close>

definition invalidateQueries :: "permission \<Rightarrow> principal \<Rightarrow> world \<Rightarrow> world" where
  "invalidateQueries hp me w = snd (queryFn hp me w)"

subsection \<open>The mutation of useUpdateUserProgress\<close>

definition isNetworkError :: "string \<Rightarrow> bool" where
  "isNetworkError errorMsg =
     (includesStr errorMsg ''network'' \<or> includesStr errorMsg ''timeout''
      \<or> includesStr errorMsg ''fetch'' \<or> includesStr errorMsg ''Failed to fetch'')"

text \<open>The network branch of the catch block, up to the error it throws.\<close>

definition saveLocallyForLaterSync :: "string \<Rightarrow> nat list \<Rightarrow> world \<Rightarrow> world" where
  "saveLocallyForLaterSync locationId sequences w =
     (let currentProgress =
            (case loadProgressFromLocalStorage w of Some p \<Rightarrow> p | None \<Rightarrow> defaultProgress);
          locationNumber = locationNumberOf locationId
      in if \<not> List.member (completedLocations currentProgress) locationNumber then
           let newCompletedLocations = completedLocations currentProgress @ [locationNumber];
               completedCount = length newCompletedLocations;
               updatedProgress =
                 \<lparr>lastCompletedLocation = locationNumber,
                  completedLocations = newCompletedLocations,
                  currentSequences = sequences,
                  totalLocations = 3,
                  mainProgress =
                    \<lparr>stage1 = completedCount \<ge> 1,
                     stage2 = completedCount \<ge> 2,
                     stage3 = completedCount \<ge> 3\<rparr>\<rparr>
           in markProgressAsUnsynced (saveProgressToLocalStorage updatedProgress w)
         else w)"

text \<open>The catch block of the mutation function: the message of the error it throws, and the world.\<close>

definition catchUpdateError :: "string \<Rightarrow> nat list \<Rightarrow> string \<Rightarrow> world \<Rightarrow> string \<times> world" where
  "catchUpdateError locationId sequences message w =
     (let errorMsg = (if message = [] then ''Error'' else message) in
      if isNetworkError errorMsg then
        (''Network error. Progress saved locally and will sync when connection is restored.'',
         saveLocallyForLaterSync locationId sequences w)
      else if includesStr errorMsg ''Invalid location ID'' \<or> includesStr errorMsg ''Location not found'' then
        (''Location not found. The story locations may not be initialized yet.'', w)
      else if includesStr errorMsg ''Unauthorized'' then
        (''Authentication required. Please log in again.'', w)
      else (''Failed to update progress: '' @ errorMsg, w))"

definition verificationFailure :: "verification \<Rightarrow> string" where
  "verificationFailure v =
     (case verror v of
        None \<Rightarrow> ''Failed to verify progress was saved to backend persistent Map''
      | Some e \<Rightarrow>
          if e = [] then ''Failed to verify progress was saved to backend persistent Map'' else e)"

definition mutationFn ::
  "permission \<Rightarrow> principal \<Rightarrow> string \<Rightarrow> nat list \<Rightarrow> world \<Rightarrow> (string + UserProgress) \<times> world" where
  "mutationFn hp me locationId workingSequences w =
     (let sequences = workingSequences in
      case actor_updateProgress hp me locationId sequences w of
        (Inl message, w1) \<Rightarrow>
          (case catchUpdateError locationId sequences message w1 of (thrown, w2) \<Rightarrow> (Inl thrown, w2))
      | (Inr result, w1) \<Rightarrow>
          if \<not> list_ex (\<lambda>loc. loc = locationNumberOf locationId) (completedLocations result) then
            (case verifyProgressSaved hp me locationId 3 w1 of
               (v, w2) \<Rightarrow>
                 (case (verified v, vprogress v) of
                    (True, Some progress) \<Rightarrow> (Inr progress, saveProgressToLocalStorage progress w2)
                  | _ \<Rightarrow>
                      (case catchUpdateError locationId sequences (verificationFailure v) w2 of
                         (thrown, w3) \<Rightarrow> (Inl thrown, w3))))
          else (Inr result, saveProgressToLocalStorage result w1))"

definition onMutate :: "string \<Rightarrow> world \<Rightarrow> UserProgress option \<times> world" where
  "onMutate locationId w =
     (let previousProgress = queryData w in
      (previousProgress,
       case previousProgress of
         None \<Rightarrow> w
       | Some previous \<Rightarrow>
           let locationNumber = locationNumberOf locationId in
           if \<not> List.member (completedLocations previous) locationNumber then
             let newCompletedLocations = completedLocations previous @ [locationNumber];
                 completedCount = length newCompletedLocations;
                 optimisticProgress =
                   previous\<lparr>lastCompletedLocation := locationNumber,
                            completedLocations := newCompletedLocations,
                            mainProgress :=
                              \<lparr>stage1 = completedCount \<ge> 1,
                               stage2 = completedCount \<ge> 2,
                               stage3 = completedCount \<ge> 3\<rparr>\<rparr>
             in w\<lparr>queryData := Some optimisticProgress\<rparr>
           else w))"

text \<open>
  \<open>onSuccess\<close> awaits the refetch. The refetches that \<open>onSuccess\<close> and \<open>handleComplete\<close> schedule
  with \<open>setTimeout(\<dots>, 500)\<close> run after \<open>handleComplete\<close> has returned.
\<close>

definition onSuccess :: "permission \<Rightarrow> principal \<Rightarrow> UserProgress \<Rightarrow> world \<Rightarrow> world" where
  "onSuccess hp me data w = invalidateQueries hp me (w\<lparr>queryData := Some data\<rparr>)"

definition onError :: "string \<Rightarrow> UserProgress option \<Rightarrow> world \<Rightarrow> world" where
  "onError message previousProgress w =
     (let errorMsg = (if message = [] then ''Error'' else message) in
      if \<not> includesStr errorMsg ''Network error'' \<and> \<not> includesStr errorMsg ''saved locally'' then
        (case previousProgress of None \<Rightarrow> w | Some previous \<Rightarrow> w\<lparr>queryData := Some previous\<rparr>)
      else w)"

text \<open>
  The mutation is configured with \<open>retry: 3\<close> and
  \<open>retryDelay: attemptIndex => Math.min(500 * 2 ** attemptIndex, 2000)\<close>: the library runs
  the mutation function again after a failure until it has failed \<open>retry + 1\<close> times.
\<close>

function mutationAttempts ::
  "permission \<Rightarrow> principal \<Rightarrow> string \<Rightarrow> nat list \<Rightarrow> nat \<Rightarrow> nat \<Rightarrow> world \<Rightarrow> (string + UserProgress) \<times> world" where
  "mutationAttempts hp me locationId ws retry failureCount w =
     (case mutationFn hp me locationId ws w of
        (Inr data, w1) \<Rightarrow> (Inr data, w1)
      | (Inl message, w1) \<Rightarrow>
          if failureCount < retry then
            mutationAttempts hp me locationId ws retry (failureCount + 1)
              (sleep (min (500 * 2 ^ failureCount) 2000) w1)
          else (Inl message, w1))"
  by pat_completeness auto
termination
  by (relation "measure (\<lambda>(hp, me, locationId, ws, retry, failureCount, w). retry - failureCount)") auto

declare mutationAttempts.simps [simp del]

definition onSettled :: "permission \<Rightarrow> principal \<Rightarrow> world \<Rightarrow> world" where
  "onSettled hp me w = invalidateQueries hp me w"

text \<open>
  \<open>mutateAsync\<close>: \<open>onMutate\<close>, the attempts, then \<open>onSuccess\<close> or \<open>onError\<close>, then \<open>onSettled\<close>.
\<close>

definition mutateAsync ::
  "permission \<Rightarrow> principal \<Rightarrow> string \<Rightarrow> nat list \<Rightarrow> world \<Rightarrow> (string + UserProgress) \<times> world" where
  "mutateAsync hp me locationId ws w =
     (case onMutate locationId w of
        (previousProgress, w1) \<Rightarrow>
          (case mutationAttempts hp me locationId ws 3 0 w1 of
             (Inr data, w2) \<Rightarrow> (Inr data, onSettled hp me (onSuccess hp me data w2))
           | (Inl message, w2) \<Rightarrow>
               (Inl message, onSettled hp me (onError message previousProgress w2))))"

subsection \<open>The retry helper and the Done button (QuestTaskPopup.tsx)\<close>

record 'a retryResult =
  success :: bool
  result :: "'a option"
  error :: "string option"
  attempts :: nat

text \<open>
  The loop of \<open>retryWithBackoff\<close> from \<open>attempt\<close> on. The operation runs on a state of
  any type; \<open>sleepFor\<close> is the wait between two attempts.
\<close>

function retryLoop ::
  "(nat \<Rightarrow> 's \<Rightarrow> 's) \<Rightarrow> ('s \<Rightarrow> (string + 'a) \<times> 's) \<Rightarrow> nat \<Rightarrow> nat \<Rightarrow> string option \<Rightarrow> 's
   \<Rightarrow> 'a retryResult \<times> 's" where
  "retryLoop sleepFor operation maxRetries attempt lastError s =
     (if attempt \<le> maxRetries then
        (case operation s of
           (Inr r, s1) \<Rightarrow>
             (\<lparr>success = True, result = Some r, error = None, attempts = attempt + 1\<rparr>, s1)
         | (Inl e, s1) \<Rightarrow>
             retryLoop sleepFor operation maxRetries (attempt + 1) (Some e)
               (if attempt < maxRetries then sleepFor (500 * 2 ^ attempt) s1 else s1))
      else
        (\<lparr>success = False, result = None, error = lastError, attempts = maxRetries + 1\<rparr>, s))"
  by pat_completeness auto
termination
  by (relation "measure (\<lambda>(sleepFor, operation, maxRetries, attempt, lastError, s). Suc maxRetries - attempt)") auto

declare retryLoop.simps [simp del]

definition retryWithBackoff ::
  "(nat \<Rightarrow> 's \<Rightarrow> 's) \<Rightarrow> ('s \<Rightarrow> (string + 'a) \<times> 's) \<Rightarrow> nat \<Rightarrow> 's \<Rightarrow> 'a retryResult \<times> 's" where
  "retryWithBackoff sleepFor operation maxRetries s = retryLoop sleepFor operation maxRetries 0 None s"

datatype toast = ToastInfo string | ToastSuccess string | ToastWarning string | ToastError string

definition plural :: "nat \<Rightarrow> string" where
  "plural n = (if n > 1 then ''s'' else [])"

text \<open>What the user sees after pressing Done: the toast, and whether the popup was closed.\<close>

definition handleComplete ::
  "permission \<Rightarrow> principal \<Rightarrow> string option \<Rightarrow> world \<Rightarrow> (toast \<times> bool) \<times> world" where
  "handleComplete hp me locationId w =
     (case locationId of
        None \<Rightarrow> ((ToastInfo ''Quest viewed. No progress to save.'', True), w)
      | Some lid \<Rightarrow>
          if lid = [] then ((ToastInfo ''Quest viewed. No progress to save.'', True), w)
          else
            (case retryWithBackoff sleep (mutateAsync hp me lid []) 2 w of
               (backendResult, w1) \<Rightarrow>
                 if success backendResult \<and> result backendResult \<noteq> None then
                   ((ToastSuccess
                       (''Quest completed! Progress saved (verified in '' @ toText (attempts backendResult)
                        @ '' attempt'' @ plural (attempts backendResult) @ '').''),
                     True),
                    invalidateQueries hp me (w1\<lparr>queryData := result backendResult\<rparr>))
                 else
                   let errorMsg =
                         (case error backendResult of
                            None \<Rightarrow> ''Unknown error''
                          | Some m \<Rightarrow> if m = [] then ''Unknown error'' else m)
                   in if includesStr errorMsg ''Network error'' \<or> includesStr errorMsg ''saved locally'' then
                        ((ToastWarning ''Progress saved locally. Will sync when connection is restored.'', True), w1)
                      else if includesStr errorMsg ''Unauthorized'' \<or> includesStr errorMsg ''Authentication'' then
                        ((ToastError ''Authentication error. Please log in again.'', False), w1)
                      else if includesStr errorMsg ''Location not found'' then
                        ((ToastError ''Location not found. Please try again or contact support.'', False), w1)
                      else
                        ((ToastError
                            (''Failed to save progress after '' @ toText (attempts backendResult)
                             @ '' attempts. Please try again.''),
                          False), w1)))"

section \<open>Notions used in the statements\<close>

text \<open>Every completed location of a record lies within 1..totalLocations.\<close>

definition completedInRange :: "UserProgress \<Rightarrow> bool" where
  "completedInRange p = list_all (\<lambda>n. 1 \<le> n \<and> n \<le> totalLocations p) (completedLocations p)"

text \<open>
  Counting the runs of an operation: the state carries the number of runs so far, and the
  wait between two attempts leaves it alone.
\<close>

definition counted :: "('s \<Rightarrow> (string + 'a) \<times> 's) \<Rightarrow> 's \<times> nat \<Rightarrow> (string + 'a) \<times> ('s \<times> nat)" where
  "counted operation = (\<lambda>(s, n). case operation s of (r, s') \<Rightarrow> (r, (s', Suc n)))"

definition sleepCounted :: "(nat \<Rightarrow> 's \<Rightarrow> 's) \<Rightarrow> nat \<Rightarrow> 's \<times> nat \<Rightarrow> 's \<times> nat" where
  "sleepCounted sleepFor = (\<lambda>delay (s, n). (sleepFor delay s, n))"

text \<open>
  The state in which run number \<open>i\<close> (counted from 0) of the operation starts under
  \<open>retryWithBackoff\<close> when the runs before it have failed: after each of them the wait,
  unless it was run number \<open>maxRetries\<close>.
\<close>

primrec attemptState ::
  "(nat \<Rightarrow> 's \<Rightarrow> 's) \<Rightarrow> ('s \<Rightarrow> (string + 'a) \<times> 's) \<Rightarrow> nat \<Rightarrow> nat \<Rightarrow> 's \<Rightarrow> 's" where
  "attemptState sleepFor operation maxRetries 0 s = s"
| "attemptState sleepFor operation maxRetries (Suc i) s =
     (let s1 = snd (operation (attemptState sleepFor operation maxRetries i s))
      in if i < maxRetries then sleepFor (500 * 2 ^ i) s1 else s1)"

text \<open>Between two worlds the canister has only gained completions, for every identity.\<close>

definition grows :: "world \<Rightarrow> world \<Rightarrow> bool" where
  "grows w w' = (\<forall>u. prefix (completedOf (backend w) u) (completedOf (backend w') u))"

text \<open>The call that reconciliation replays for a cached location number.\<close>

definition replayCall :: "principal \<Rightarrow> nat list \<Rightarrow> nat \<Rightarrow> call" where
  "replayCall me sequences locationNum = UpdateProgress me (''location_'' @ toText locationNum) sequences"

text \<open>What happens to the call made after \<open>i\<close> further calls.\<close>

definition outcomeAt :: "world \<Rightarrow> nat \<Rightarrow> delivery" where
  "outcomeAt w i = (if i < length (network w) then network w ! i else thereafter w)"

text \<open>
  Replay number \<open>i\<close> (counted from 0) of the list succeeds when the replays before it have been
  written: the call is delivered, and \<open>updateProgress\<close> returns a record in the state the
  canister has then. There is no replay after the end of the list.
\<close>

definition replaySucceeds ::
  "permission \<Rightarrow> principal \<Rightarrow> nat list \<Rightarrow> nat list \<Rightarrow> world \<Rightarrow> nat \<Rightarrow> bool" where
  "replaySucceeds hp me sequences ks w i =
     (case drop i ks of
        [] \<Rightarrow> False
      | k # _ \<Rightarrow>
          outcomeAt w i = Delivered
          \<and> \<not> isl (updateProgress hp (run hp (map (replayCall me sequences) (take i ks)) (backend w))
                     me (''location_'' @ toText k) sequences))"

text \<open>
  The world after the first \<open>j\<close> replays of the list have been written and, when the list is
  longer, one more call has been made.
\<close>

definition afterReplays ::
  "permission \<Rightarrow> principal \<Rightarrow> nat list \<Rightarrow> nat list \<Rightarrow> nat \<Rightarrow> world \<Rightarrow> world" where
  "afterReplays hp me sequences ks j w =
     w\<lparr>backend := run hp (map (replayCall me sequences) (take j ks)) (backend w),
       network := drop (if j < length ks then Suc j else j) (network w)\<rparr>"

text \<open>The canister knows the location id, and the location's sequence number is completed for the identity.\<close>

definition writtenFor :: "canister \<Rightarrow> principal \<Rightarrow> string \<Rightarrow> bool" where
  "writtenFor s me locationId =
     (case storyLocations s locationId of
        None \<Rightarrow> False
      | Some loc \<Rightarrow> list_ex (\<lambda>n. n = sequenceNumber loc) (completedOf s me))"

text \<open>The record the network branch starts from: the cached one, or the default without a readable cache.\<close>

definition cachedOrDefault :: "world \<Rightarrow> UserProgress" where
  "cachedOrDefault w = (case loadProgressFromLocalStorage w of Some p \<Rightarrow> p | None \<Rightarrow> defaultProgress)"

text \<open>The record the network branch saves for a location number that the cache lacks.\<close>

definition queuedProgress :: "nat \<Rightarrow> nat list \<Rightarrow> UserProgress \<Rightarrow> UserProgress" where
  "queuedProgress locationNumber sequences currentProgress =
     \<lparr>lastCompletedLocation = locationNumber,
      completedLocations = completedLocations currentProgress @ [locationNumber],
      currentSequences = sequences,
      totalLocations = 3,
      mainProgress =
        \<lparr>stage1 = length (completedLocations currentProgress @ [locationNumber]) \<ge> 1,
         stage2 = length (completedLocations currentProgress @ [locationNumber]) \<ge> 2,
         stage3 = length (completedLocations currentProgress @ [locationNumber]) \<ge> 3\<rparr>\<rparr>"

text \<open>The message of the error the network branch throws.\<close>

definition networkErrorMessage :: string where
  "networkErrorMessage = ''Network error. Progress saved locally and will sync when connection is restored.''"

text \<open>
  A call that fails with a message in which the mutation function finds \<open>network\<close>, \<open>timeout\<close>
  or \<open>fetch\<close>; and a network on which every coming call fails in this way.
\<close>

definition recognisedFailure :: "delivery \<Rightarrow> bool" where
  "recognisedFailure d =
     (case d of
        Delivered \<Rightarrow> False
      | Failed message \<Rightarrow> isNetworkError (if message = [] then ''Error'' else message))"

definition networkDown :: "world \<Rightarrow> bool" where
  "networkDown w = (list_all recognisedFailure (network w) \<and> recognisedFailure (thereafter w))"

text \<open>The same world with a network that delivers every call from now on.\<close>

definition restored :: "world \<Rightarrow> world" where
  "restored w = w\<lparr>network := [], thereafter := Delivered\<rparr>"

text \<open>
  The record the cache holds once the network branch has run for a location: the cached record
  when it has the location already, else the cached (or default) record extended by it.
\<close>

definition keptRecord :: "string \<Rightarrow> nat list \<Rightarrow> world \<Rightarrow> UserProgress" where
  "keptRecord locationId sequences w =
     (if locationNumberOf locationId \<in> set (completedLocations (cachedOrDefault w))
      then cachedOrDefault w
      else queuedProgress (locationNumberOf locationId) sequences (cachedOrDefault w))"

text \<open>The canister is \<open>b\<close>, the network is down, and the cache holds the record \<open>c\<close>.\<close>

definition offlineWith :: "canister \<Rightarrow> UserProgress \<Rightarrow> world \<Rightarrow> bool" where
  "offlineWith b c s = (backend s = b \<and> networkDown s \<and> loadProgressFromLocalStorage s = Some c)"

text \<open>
  The canister can take the replayed write of a location number: it resolves the id
  \<open>location_<number>\<close> to that sequence number, which lies within the range of the identity's
  record.
\<close>

definition replayable :: "permission \<Rightarrow> canister \<Rightarrow> principal \<Rightarrow> nat \<Rightarrow> bool" where
  "replayable hp s me k =
     (case storyLocations s (''location_'' @ toText k) of
        None \<Rightarrow> False
      | Some loc \<Rightarrow>
          sequenceNumber loc = k \<and> 1 \<le> k
          \<and> k \<le> totalLocations (fst (ensureProgressInitialized hp s me)))"

section \<open>Example data\<close>

text \<open>A permission check that lets every caller through, the two locations of the trail with a third whose
  sequence number is out of range, and records, canisters and worlds built from them.\<close>

definition everyone :: permission where
  "everyone = (\<lambda>_ _. True)"

definition trail :: "string \<rightharpoonup> StoryLocation" where
  "trail = [''location_1'' \<mapsto> location1, ''location_2'' \<mapsto> location2,
            ''location_4'' \<mapsto> location2\<lparr>id' := ''location_4'', sequenceNumber := 4\<rparr>]"

definition afterFirst :: UserProgress where
  "afterFirst =
     \<lparr>lastCompletedLocation = 1, completedLocations = [1], currentSequences = [],
      totalLocations = 3,
      mainProgress = \<lparr>stage1 = True, stage2 = False, stage3 = False\<rparr>\<rparr>"

definition strayRecord :: UserProgress where
  "strayRecord =
     \<lparr>lastCompletedLocation = 4, completedLocations = [4], currentSequences = [],
      totalLocations = 3,
      mainProgress = \<lparr>stage1 = True, stage2 = False, stage3 = False\<rparr>\<rparr>"

definition stagedOnly :: UserProgress where
  "stagedOnly =
     \<lparr>lastCompletedLocation = 0, completedLocations = [], currentSequences = [],
      totalLocations = 3,
      mainProgress = \<lparr>stage1 = True, stage2 = False, stage3 = False\<rparr>\<rparr>"

definition stagedAhead :: UserProgress where
  "stagedAhead =
     \<lparr>lastCompletedLocation = 1, completedLocations = [1], currentSequences = [],
      totalLocations = 3,
      mainProgress = \<lparr>stage1 = True, stage2 = False, stage3 = True\<rparr>\<rparr>"

definition location4 :: StoryLocation where
  "location4 = location2\<lparr>id' := ''location_4'', sequenceNumber := 4\<rparr>"

definition farRecord :: UserProgress where
  "farRecord =
     \<lparr>lastCompletedLocation = 9007199254740993,
      completedLocations = [9007199254740993, 18446744073709551617],
      currentSequences = [0, 340282366920938463463374607431768211457],
      totalLocations = 0,
      mainProgress = \<lparr>stage1 = True, stage2 = True, stage3 = False\<rparr>\<rparr>"

definition emptyWorld :: world where
  "emptyWorld =
     \<lparr>backend = initial trail, localStorage = None, queryData = None, network = [],
      thereafter = Delivered, clock = 0\<rparr>"

definition rejectUnauthorized :: "unit \<Rightarrow> (string + UserProgress) \<times> unit" where
  "rejectUnauthorized = (\<lambda>s. (Inl ''Authentication required. Please log in again.'', s))"

definition noWait :: "nat \<Rightarrow> unit \<Rightarrow> unit" where
  "noWait = (\<lambda>delay s. s)"

definition failsOnce :: "nat \<Rightarrow> (string + nat) \<times> nat" where
  "failsOnce = (\<lambda>n. (if n = 0 then Inl ''Failed to fetch'' else Inr n, Suc n))"

definition failsDifferently :: "nat \<Rightarrow> (string + nat) \<times> nat" where
  "failsDifferently =
     (\<lambda>n. (Inl (if n = 0 then ''Failed to fetch''
                else if n = 1 then ''Request timed out''
                else ''Authentication required. Please log in again.''), Suc n))"

definition noDelay :: "nat \<Rightarrow> nat \<Rightarrow> nat" where
  "noDelay = (\<lambda>delay n. n)"

definition cachedTwo :: UserProgress where
  "cachedTwo =
     \<lparr>lastCompletedLocation = 2, completedLocations = [1, 2], currentSequences = [],
      totalLocations = 3,
      mainProgress = \<lparr>stage1 = True, stage2 = True, stage3 = False\<rparr>\<rparr>"

definition queuedEntry :: stored where
  "queuedEntry =
     \<lparr>st_lastCompletedLocation = ''2'', st_totalLocations = ''3'',
      st_completedLocations = [''1'', ''2''],
      st_mainProgress = \<lparr>stage1 = True, stage2 = True, stage3 = False\<rparr>,
      st_currentSequences = [], st_timestamp = 0, st_synced = False\<rparr>"

definition aliceFirst :: canister where
  "aliceFirst = \<lparr>userProgress = [''alice'' \<mapsto> afterFirst], storyLocations = trail\<rparr>"

definition aliceBoth :: canister where
  "aliceBoth = \<lparr>userProgress = [''alice'' \<mapsto> cachedTwo], storyLocations = trail\<rparr>"

definition queuedWorld :: "canister \<Rightarrow> delivery list \<Rightarrow> world" where
  "queuedWorld b net =
     \<lparr>backend = b, localStorage = Some queuedEntry, queryData = Some cachedTwo,
      network = net, thereafter = Delivered, clock = 0\<rparr>"

definition reconciledWorld :: world where
  "reconciledWorld =
     \<lparr>backend = aliceBoth, localStorage = Some (queuedEntry\<lparr>st_synced := True\<rparr>),
      queryData = Some cachedTwo, network = [], thereafter = Delivered, clock = 0\<rparr>"

definition offlineWorld :: world where
  "offlineWorld =
     \<lparr>backend = aliceFirst, localStorage = None, queryData = Some afterFirst,
      network = [], thereafter = Failed ''Failed to fetch'', clock = 0\<rparr>"

definition queuedSecond :: UserProgress where
  "queuedSecond =
     \<lparr>lastCompletedLocation = 2, completedLocations = [2], currentSequences = [],
      totalLocations = 3,
      mainProgress = \<lparr>stage1 = True, stage2 = False, stage3 = False\<rparr>\<rparr>"

text \<open>A world in which every call fails with the message \<open>Load failed\<close>, and no cache.\<close>

definition strandedWorld :: "UserProgress option \<Rightarrow> nat \<Rightarrow> world" where
  "strandedWorld q t =
     \<lparr>backend = aliceFirst, localStorage = None, queryData = q,
      network = [], thereafter = Failed ''Load failed'', clock = t\<rparr>"


text \<open>
  A world in which, three times over, four calls fail on the network, one is delivered, one
  fails and one is delivered: under \<open>handleComplete\<close> the writes fail and the reads succeed.
\<close>

definition halfOpenWorld :: world where
  "halfOpenWorld =
     \<lparr>backend = aliceFirst, localStorage = None, queryData = Some afterFirst,
      network = concat (replicate 3
        (replicate 4 (Failed ''Failed to fetch'') @ [Delivered, Failed ''Failed to fetch'', Delivered])),
      thereafter = Delivered, clock = 0\<rparr>"

section \<open>Properties of the canister\<close>

lemma isLocationCompleted_iff: "isLocationCompleted cl n \<longleftrightarrow> n \<in> set cl"
  by (induction cl) (auto simp: isLocationCompleted_def)

lemma updateProgress_duplicate:
  assumes "hp caller user" and "storyLocations s lid = Some loc"
    and "userProgress s caller = Some p"
    and "sequenceNumber loc \<in> set (completedLocations p)"
  shows "updateProgress hp s caller lid ws = Inr (p, s)"
  using assms by (simp add: updateProgress_def ensureProgressInitialized_def isLocationCompleted_iff)

lemma updateProgress_success_record:
  assumes "updateProgress hp s caller lid ws = Inr (r, s')"
  shows "hp caller user \<and> userProgress s' caller = Some r \<and> storyLocations s' = storyLocations s
         \<and> (\<exists>loc. storyLocations s lid = Some loc \<and> sequenceNumber loc \<in> set (completedLocations r))"
  using assms
  by (auto simp: updateProgress_def ensureProgressInitialized_def isLocationCompleted_iff Let_def
           split: if_splits option.splits)

lemma toText_small: "n < 10 \<Longrightarrow> toText n = [digit n]"
  by (simp add: toText.simps)

lemma updateProgress_again:
  assumes "updateProgress hp s caller lid ws = Inr (r, s')"
  shows "updateProgress hp s' caller lid ws = Inr (r, s')"
proof -
  from updateProgress_success_record [OF assms] obtain loc where
    h: "hp caller user" "userProgress s' caller = Some r" "storyLocations s' lid = Some loc"
       "sequenceNumber loc \<in> set (completedLocations r)"
    by auto
  show ?thesis using updateProgress_duplicate [of hp caller s' lid loc r ws] h by simp
qed

lemma exec_UpdateProgress_twice:
  "exec hp (UpdateProgress caller lid ws) (exec hp (UpdateProgress caller lid ws) s)
   = exec hp (UpdateProgress caller lid ws) s"
proof (cases "updateProgress hp s caller lid ws")
  case (Inl e)
  then show ?thesis by simp
next
  case (Inr rs)
  obtain r s' where rs: "rs = (r, s')" by (cases rs)
  with Inr have "updateProgress hp s' caller lid ws = Inr (r, s')"
    using updateProgress_again by simp
  with Inr rs show ?thesis by simp
qed

text \<open>
  C3. A write for a location whose sequence number is already among the caller's completed
  locations returns the stored record and leaves the canister as it was (for a caller with
  the user permission and a location the canister knows); a write repeated after a
  successful one returns the same record and state; and the state the canister keeps
  after two equal calls is the state it keeps after one.
\<close>

theorem updateProgress_idempotent:
  "(hp caller user \<and> storyLocations s lid = Some loc \<and> userProgress s caller = Some p
      \<and> sequenceNumber loc \<in> set (completedLocations p)
    \<longrightarrow> updateProgress hp s caller lid ws = Inr (p, s))
   \<and> (updateProgress hp s caller lid ws = Inr (r, s')
    \<longrightarrow> updateProgress hp s' caller lid ws = Inr (r, s'))
   \<and> exec hp (UpdateProgress caller lid ws) (exec hp (UpdateProgress caller lid ws) s)
     = exec hp (UpdateProgress caller lid ws) s"
  by (intro conjI impI exec_UpdateProgress_twice updateProgress_again)
     (auto intro: updateProgress_duplicate)

lemma sequenceNumber_location1: "sequenceNumber location1 = 1"
  by (simp add: location1_def)

lemma first_write:
  "updateProgress everyone (initial trail) ''alice'' ''location_1'' []
   = Inr (afterFirst, \<lparr>userProgress = [''alice'' \<mapsto> afterFirst], storyLocations = trail\<rparr>)"
  by (simp add: updateProgress_def ensureProgressInitialized_def initial_def everyone_def trail_def
                sequenceNumber_location1 isLocationCompleted_def initialProgress_def afterFirst_def Let_def)

theorem updateProgress_idempotent_witness:
  "everyone ''alice'' user
   \<and> storyLocations \<lparr>userProgress = [''alice'' \<mapsto> afterFirst], storyLocations = trail\<rparr> ''location_1'' = Some location1
   \<and> userProgress \<lparr>userProgress = [''alice'' \<mapsto> afterFirst], storyLocations = trail\<rparr> ''alice'' = Some afterFirst
   \<and> sequenceNumber location1 \<in> set (completedLocations afterFirst)
   \<and> updateProgress everyone (initial trail) ''alice'' ''location_1'' []
     = Inr (afterFirst, \<lparr>userProgress = [''alice'' \<mapsto> afterFirst], storyLocations = trail\<rparr>)
   \<and> updateProgress everyone \<lparr>userProgress = [''alice'' \<mapsto> afterFirst], storyLocations = trail\<rparr>
        ''alice'' ''location_1'' []
     = Inr (afterFirst, \<lparr>userProgress = [''alice'' \<mapsto> afterFirst], storyLocations = trail\<rparr>)"
proof -
  let ?s = "\<lparr>userProgress = [''alice'' \<mapsto> afterFirst], storyLocations = trail\<rparr>"
  have a: "everyone ''alice'' user" by (simp add: everyone_def)
  have b: "storyLocations ?s ''location_1'' = Some location1" by (simp add: trail_def)
  have c: "userProgress ?s ''alice'' = Some afterFirst" by simp
  have d: "sequenceNumber location1 \<in> set (completedLocations afterFirst)"
    by (simp add: sequenceNumber_location1 afterFirst_def)
  have e: "updateProgress everyone ?s ''alice'' ''location_1'' [] = Inr (afterFirst, ?s)"
    using updateProgress_idempotent [of everyone "''alice''" ?s "''location_1''" location1 afterFirst "[]"]
      a b c d by simp
  show ?thesis by (intro conjI a b c d e first_write)
qed

lemma trail_simps:
  "trail ''location_1'' = Some location1" "trail ''location_2'' = Some location2"
  "trail ''location_4'' = Some location4"
  by (simp_all add: trail_def location4_def)

lemma sequenceNumber_location2: "sequenceNumber location2 = 2"
  by (simp add: location2_def)

lemma sequenceNumber_location4: "sequenceNumber location4 = 4"
  by (simp add: location4_def)

lemma everyone_user: "everyone u r"
  by (simp add: everyone_def)

text \<open>
  C10. In \<open>updateProgress\<close> the test for an already completed location comes before
  the range test: for a caller with the user permission and a known location whose sequence
  number is already among the caller's completed locations, the call returns the stored
  record and changes nothing, also when that sequence number lies outside 1..totalLocations.
\<close>

theorem duplicate_check_precedes_range_check:
  assumes "hp caller user" and "storyLocations s lid = Some loc"
    and "userProgress s caller = Some p"
    and "sequenceNumber loc \<in> set (completedLocations p)"
    and "sequenceNumber loc < 1 \<or> totalLocations p < sequenceNumber loc"
  shows "updateProgress hp s caller lid ws = Inr (p, s)"
  using assms(1-4) by (rule updateProgress_duplicate)

theorem duplicate_check_precedes_range_check_witness:
  "everyone ''alice'' user
   \<and> storyLocations \<lparr>userProgress = [''alice'' \<mapsto> strayRecord], storyLocations = trail\<rparr> ''location_4'' = Some location4
   \<and> userProgress \<lparr>userProgress = [''alice'' \<mapsto> strayRecord], storyLocations = trail\<rparr> ''alice'' = Some strayRecord
   \<and> sequenceNumber location4 \<in> set (completedLocations strayRecord)
   \<and> totalLocations strayRecord < sequenceNumber location4
   \<and> updateProgress everyone \<lparr>userProgress = [''alice'' \<mapsto> strayRecord], storyLocations = trail\<rparr>
        ''alice'' ''location_4'' []
     = Inr (strayRecord, \<lparr>userProgress = [''alice'' \<mapsto> strayRecord], storyLocations = trail\<rparr>)"
proof -
  let ?s = "\<lparr>userProgress = [''alice'' \<mapsto> strayRecord], storyLocations = trail\<rparr>"
  have a: "everyone ''alice'' user" by (rule everyone_user)
  have b: "storyLocations ?s ''location_4'' = Some location4" by (simp add: trail_simps)
  have c: "userProgress ?s ''alice'' = Some strayRecord" by simp
  have d: "sequenceNumber location4 \<in> set (completedLocations strayRecord)"
    by (simp add: sequenceNumber_location4 strayRecord_def)
  have e: "totalLocations strayRecord < sequenceNumber location4"
    by (simp add: sequenceNumber_location4 strayRecord_def)
  have f: "updateProgress everyone ?s ''alice'' ''location_4'' [] = Inr (strayRecord, ?s)"
    using duplicate_check_precedes_range_check
            [of everyone "''alice''" ?s "''location_4''" location4 strayRecord "[]"] a b c d e
    by simp
  show ?thesis by (intro conjI a b c d e f)
qed

lemma exec_inRange:
  assumes "\<And>u p. userProgress s u = Some p \<Longrightarrow> completedInRange p"
    and "userProgress (exec hp c s) u = Some p"
  shows "completedInRange p"
  using assms
  by (cases c)
     (auto simp: completedInRange_def updateProgress_def updateMainProgress_def initializeLocations_def
                 ensureProgressInitialized_def initialProgress_def Let_def isLocationCompleted_iff
           split: option.splits if_splits sum.splits prod.splits)

lemma run_inRange:
  assumes "\<And>u p. userProgress s u = Some p \<Longrightarrow> completedInRange p"
    and "userProgress (run hp cs s) u = Some p"
  shows "completedInRange p"
  using assms
proof (induction cs arbitrary: s)
  case Nil
  then show ?case by simp
next
  case (Cons c cs)
  show ?case
  proof (rule Cons.IH)
    show "userProgress (run hp cs (exec hp c s)) u = Some p" using Cons.prems(2) by simp
  next
    fix u' p' assume "userProgress (exec hp c s) u' = Some p'"
    then show "completedInRange p'" using exec_inRange Cons.prems(1) by blast
  qed
qed

lemma reachable_inRange:
  assumes "userProgress (run hp cs (initial locations)) u = Some p"
  shows "completedInRange p"
  by (rule run_inRange [OF _ assms]) (simp add: initial_def)

lemma updateProgress_out_of_range:
  assumes "hp caller user" and "storyLocations s lid = Some loc"
    and "sequenceNumber loc \<notin> set (completedLocations (fst (ensureProgressInitialized hp s caller)))"
    and "sequenceNumber loc < 1
         \<or> totalLocations (fst (ensureProgressInitialized hp s caller)) < sequenceNumber loc"
  shows "updateProgress hp s caller lid ws
         = Inl (''Invalid sequence number: Out of range (1-''
                @ toText (totalLocations (fst (ensureProgressInitialized hp s caller))) @ '')'')"
  using assms
  by (auto simp: updateProgress_def isLocationCompleted_iff split: prod.splits)

text \<open>
  C4. In every state the canister reaches from its initial state (no progress records, any
  table of locations) by any sequence of calls, a write by a caller with the user permission
  for a known location whose sequence number is below 1 or above the caller's
  \<open>totalLocations\<close> traps with "Invalid sequence number: Out of range", and the canister
  keeps the state it had.
\<close>

theorem updateProgress_rejects_out_of_range:
  assumes "s = run hp cs (initial locations)"
    and "hp caller user" and "storyLocations s lid = Some loc"
    and "sequenceNumber loc < 1
         \<or> totalLocations (fst (ensureProgressInitialized hp s caller)) < sequenceNumber loc"
  shows "updateProgress hp s caller lid ws
         = Inl (''Invalid sequence number: Out of range (1-''
                @ toText (totalLocations (fst (ensureProgressInitialized hp s caller))) @ '')'')
         \<and> exec hp (UpdateProgress caller lid ws) s = s"
proof -
  have "sequenceNumber loc \<notin> set (completedLocations (fst (ensureProgressInitialized hp s caller)))"
  proof (cases "userProgress s caller")
    case None
    then show ?thesis by (simp add: ensureProgressInitialized_def initialProgress_def)
  next
    case (Some p)
    then have "completedInRange p" using reachable_inRange assms(1) by blast
    with Some assms(4) show ?thesis
      by (auto simp: ensureProgressInitialized_def completedInRange_def list_all_iff)
  qed
  from updateProgress_out_of_range [OF assms(2,3) this assms(4)]
  show ?thesis by simp
qed

lemma digit_simps:
  "digit 0 = CHR ''0''" "digit (Suc 0) = CHR ''1''" "digit 1 = CHR ''1''" "digit 2 = CHR ''2''"
  "digit 3 = CHR ''3''" "digit 4 = CHR ''4''" "digit 5 = CHR ''5''" "digit 6 = CHR ''6''"
  "digit 7 = CHR ''7''" "digit 8 = CHR ''8''" "digit 9 = CHR ''9''"
  by (simp_all add: digit_def char_of_eq_iff)

lemma toText_3: "toText 3 = ''3''"
  by (simp add: toText_small digit_simps)

lemma run_first:
  "run everyone [UpdateProgress ''alice'' ''location_1'' []] (initial trail)
   = \<lparr>userProgress = [''alice'' \<mapsto> afterFirst], storyLocations = trail\<rparr>"
  using first_write by simp

theorem updateProgress_rejects_out_of_range_witness:
  "\<lparr>userProgress = [''alice'' \<mapsto> afterFirst], storyLocations = trail\<rparr>
     = run everyone [UpdateProgress ''alice'' ''location_1'' []] (initial trail)
   \<and> everyone ''alice'' user
   \<and> storyLocations \<lparr>userProgress = [''alice'' \<mapsto> afterFirst], storyLocations = trail\<rparr> ''location_4''
     = Some location4
   \<and> totalLocations (fst (ensureProgressInitialized everyone
        \<lparr>userProgress = [''alice'' \<mapsto> afterFirst], storyLocations = trail\<rparr> ''alice''))
     < sequenceNumber location4
   \<and> updateProgress everyone \<lparr>userProgress = [''alice'' \<mapsto> afterFirst], storyLocations = trail\<rparr>
        ''alice'' ''location_4'' []
     = Inl ''Invalid sequence number: Out of range (1-3)''
   \<and> exec everyone (UpdateProgress ''alice'' ''location_4'' [])
        \<lparr>userProgress = [''alice'' \<mapsto> afterFirst], storyLocations = trail\<rparr>
     = \<lparr>userProgress = [''alice'' \<mapsto> afterFirst], storyLocations = trail\<rparr>"
proof -
  let ?s = "\<lparr>userProgress = [''alice'' \<mapsto> afterFirst], storyLocations = trail\<rparr>"
  have r: "?s = run everyone [UpdateProgress ''alice'' ''location_1'' []] (initial trail)"
    by (rule run_first [symmetric])
  have a: "everyone ''alice'' user" by (rule everyone_user)
  have b: "storyLocations ?s ''location_4'' = Some location4"
    by (simp add: trail_simps)
  have t: "totalLocations (fst (ensureProgressInitialized everyone ?s ''alice'')) = 3"
    by (simp add: ensureProgressInitialized_def afterFirst_def)
  have c: "totalLocations (fst (ensureProgressInitialized everyone ?s ''alice'')) < sequenceNumber location4"
    unfolding t sequenceNumber_location4 by simp
  have d: "updateProgress everyone ?s ''alice'' ''location_4'' []
             = Inl ''Invalid sequence number: Out of range (1-3)''
           \<and> exec everyone (UpdateProgress ''alice'' ''location_4'' []) ?s = ?s"
    using updateProgress_rejects_out_of_range
            [of ?s everyone "[UpdateProgress ''alice'' ''location_1'' []]" trail "''alice''"
                "''location_4''" location4 "[]", OF r a b disjI2 [OF c]]
    unfolding t toText_3 by simp
  show ?thesis by (intro conjI r a b c d [THEN conjunct1] d [THEN conjunct2])
qed

lemma exec_flags:
  assumes "\<And>u p. userProgress s u = Some p \<Longrightarrow> flagsConsistent p \<and> distinct (completedLocations p)"
    and "\<not> isUpdateMainProgress c"
    and "userProgress (exec hp c s) u = Some p"
  shows "flagsConsistent p \<and> distinct (completedLocations p)"
  using assms
  by (cases c)
     (auto simp: flagsConsistent_def isUpdateMainProgress_def updateProgress_def initializeLocations_def
                 ensureProgressInitialized_def initialProgress_def Let_def isLocationCompleted_iff
           split: option.splits if_splits sum.splits prod.splits)

lemma run_flags:
  assumes "\<And>u p. userProgress s u = Some p \<Longrightarrow> flagsConsistent p \<and> distinct (completedLocations p)"
    and "\<not> list_ex isUpdateMainProgress cs"
    and "userProgress (run hp cs s) u = Some p"
  shows "flagsConsistent p \<and> distinct (completedLocations p)"
  using assms
proof (induction cs arbitrary: s)
  case Nil
  then show ?case by simp
next
  case (Cons c cs)
  show ?case
  proof (rule Cons.IH)
    show "\<not> list_ex isUpdateMainProgress cs" using Cons.prems(2) by simp
    show "userProgress (run hp cs (exec hp c s)) u = Some p" using Cons.prems(3) by simp
  next
    fix u' p' assume "userProgress (exec hp c s) u' = Some p'"
    moreover have "\<not> isUpdateMainProgress c" using Cons.prems(2) by simp
    ultimately show "flagsConsistent p' \<and> distinct (completedLocations p')"
      using exec_flags Cons.prems(1) by blast
  qed
qed

lemma updateProgress_write_flags:
  assumes "updateProgress hp s caller lid ws = Inr (r, s')" and "userProgress s caller \<noteq> Some r"
  shows "flagsConsistent r"
  using assms
  by (auto simp: flagsConsistent_def updateProgress_def ensureProgressInitialized_def Let_def
                 initialProgress_def isLocationCompleted_iff
           split: option.splits if_splits)

lemma exec_cover:
  assumes "\<And>u p. userProgress s u = Some p \<Longrightarrow> flagsCover p \<and> distinct (completedLocations p)"
    and "userProgress (exec hp c s) u = Some p"
  shows "flagsCover p \<and> distinct (completedLocations p)"
proof (cases c)
  case (UpdateProgress caller lid ws)
  with assms show ?thesis
    by (auto simp: flagsCover_def updateProgress_def ensureProgressInitialized_def initialProgress_def
                   Let_def isLocationCompleted_iff
             split: option.splits if_splits sum.splits prod.splits)
next
  case (UpdateMainProgress caller stage)
  with assms show ?thesis
    by (auto simp: flagsCover_def updateMainProgress_def ensureProgressInitialized_def
                   initialProgress_def Let_def
             split: option.splits if_splits sum.splits prod.splits)
next
  case (GetUserProgress caller)
  with assms show ?thesis by simp
next
  case (InitializeLocations caller)
  with assms show ?thesis
    by (auto simp: initializeLocations_def split: if_splits sum.splits)
qed

lemma run_cover:
  assumes "\<And>u p. userProgress s u = Some p \<Longrightarrow> flagsCover p \<and> distinct (completedLocations p)"
    and "userProgress (run hp cs s) u = Some p"
  shows "flagsCover p \<and> distinct (completedLocations p)"
  using assms
proof (induction cs arbitrary: s)
  case Nil
  then show ?case by simp
next
  case (Cons c cs)
  show ?case
  proof (rule Cons.IH)
    show "userProgress (run hp cs (exec hp c s)) u = Some p" using Cons.prems(2) by simp
  next
    fix u' p' assume "userProgress (exec hp c s) u' = Some p'"
    then show "flagsCover p' \<and> distinct (completedLocations p')"
      using exec_cover Cons.prems(1) by blast
  qed
qed

lemma updateMainProgress_sets_stage:
  assumes "hp caller user" and "1 \<le> stage" and "stage \<le> 3"
  shows "updateMainProgress hp s caller stage
         = Inr (s\<lparr>userProgress := (userProgress s)
                   (caller \<mapsto> (fst (ensureProgressInitialized hp s caller))
                      \<lparr>mainProgress :=
                         setStage stage (mainProgress (fst (ensureProgressInitialized hp s caller)))\<rparr>)\<rparr>)"
proof -
  have "stage = 1 \<or> stage = 2 \<or> stage = 3" using assms(2,3) by arith
  then show ?thesis
    using assms(1)
    by (auto simp: updateMainProgress_def ensureProgressInitialized_def setStage_def Let_def
             split: option.splits)
qed

lemma exec_UpdateMainProgress_completedOf:
  "completedOf (exec hp (UpdateMainProgress caller stage) s) u = completedOf s u"
  by (auto simp: completedOf_def updateMainProgress_def ensureProgressInitialized_def
                 initialProgress_def Let_def
           split: option.splits sum.splits)

text \<open>
  C2 (as amended). In every state reached from the initial state, whatever the calls, each
  stored record has stageN set whenever at least N locations are completed (N = 1, 2, 3), and
  its completed locations are distinct. The flags equal the comparisons, stageN = (number of
  completed locations \<ge> N), in every state reached by calls other than \<open>updateMainProgress\<close>,
  and in the record of every write of \<open>updateProgress\<close> (a call that returns a record differing
  from the stored one) in any state at all. \<open>updateMainProgress\<close>, called by an authorised
  identity with a stage from 1 to 3, stores the caller's record with the flag of that stage
  set and nothing else changed, whatever the completed locations are, and no call of it
  changes the completed locations of anyone.
\<close>

theorem stage_flags_and_completions:
  "(userProgress (run hp cs (initial locations)) u = Some p
      \<longrightarrow> flagsCover p \<and> distinct (completedLocations p))
   \<and> (\<not> list_ex isUpdateMainProgress cs \<and> userProgress (run hp cs (initial locations)) u = Some p
      \<longrightarrow> flagsConsistent p)
   \<and> (updateProgress hp s caller lid ws = Inr (r, s') \<and> userProgress s caller \<noteq> Some r
      \<longrightarrow> flagsConsistent r)
   \<and> (hp caller user \<and> 1 \<le> stage \<and> stage \<le> 3
      \<longrightarrow> updateMainProgress hp s caller stage
          = Inr (s\<lparr>userProgress := (userProgress s)
                    (caller \<mapsto> (fst (ensureProgressInitialized hp s caller))
                       \<lparr>mainProgress :=
                          setStage stage (mainProgress (fst (ensureProgressInitialized hp s caller)))\<rparr>)\<rparr>))
   \<and> completedOf (exec hp (UpdateMainProgress caller stage) s) u = completedOf s u"
proof (intro conjI impI)
  assume h: "userProgress (run hp cs (initial locations)) u = Some p"
  have "flagsCover p \<and> distinct (completedLocations p)"
    by (rule run_cover [of "initial locations" hp cs u p]) (use h in \<open>simp_all add: initial_def\<close>)
  then show "flagsCover p" "distinct (completedLocations p)" by simp_all
next
  assume h: "\<not> list_ex isUpdateMainProgress cs \<and> userProgress (run hp cs (initial locations)) u = Some p"
  have "flagsConsistent p \<and> distinct (completedLocations p)"
    by (rule run_flags [of "initial locations" cs hp u p]) (use h in \<open>simp_all add: initial_def\<close>)
  then show "flagsConsistent p" by simp
next
  assume "updateProgress hp s caller lid ws = Inr (r, s') \<and> userProgress s caller \<noteq> Some r"
  then show "flagsConsistent r" using updateProgress_write_flags by blast
next
  assume "hp caller user \<and> 1 \<le> stage \<and> stage \<le> 3"
  then show "updateMainProgress hp s caller stage
          = Inr (s\<lparr>userProgress := (userProgress s)
                    (caller \<mapsto> (fst (ensureProgressInitialized hp s caller))
                       \<lparr>mainProgress :=
                          setStage stage (mainProgress (fst (ensureProgressInitialized hp s caller)))\<rparr>)\<rparr>)"
    using updateMainProgress_sets_stage by blast
next
  show "completedOf (exec hp (UpdateMainProgress caller stage) s) u = completedOf s u"
    by (rule exec_UpdateMainProgress_completedOf)
qed

lemma run_first_then_stage3:
  "run everyone [UpdateProgress ''alice'' ''location_1'' [], UpdateMainProgress ''alice'' 3] (initial trail)
   = \<lparr>userProgress = [''alice'' \<mapsto> stagedAhead], storyLocations = trail\<rparr>"
  using first_write
  by (simp add: updateMainProgress_def ensureProgressInitialized_def everyone_def afterFirst_def
                stagedAhead_def)

lemma stage1_initial:
  "updateMainProgress everyone (initial trail) ''alice'' 1
   = Inr \<lparr>userProgress = [''alice'' \<mapsto> stagedOnly], storyLocations = trail\<rparr>"
  by (simp add: updateMainProgress_def ensureProgressInitialized_def initial_def everyone_def
                initialProgress_def stagedOnly_def)

theorem stage_flags_and_completions_witness:
  "userProgress (run everyone [UpdateProgress ''alice'' ''location_1'' [], UpdateMainProgress ''alice'' 3]
                    (initial trail)) ''alice'' = Some stagedAhead
   \<and> flagsCover stagedAhead \<and> distinct (completedLocations stagedAhead)
   \<and> \<not> flagsConsistent stagedAhead
   \<and> \<not> list_ex isUpdateMainProgress [UpdateProgress ''alice'' ''location_1'' []]
   \<and> userProgress (run everyone [UpdateProgress ''alice'' ''location_1'' []] (initial trail)) ''alice''
     = Some afterFirst
   \<and> flagsConsistent afterFirst
   \<and> updateProgress everyone (initial trail) ''alice'' ''location_1'' []
     = Inr (afterFirst, \<lparr>userProgress = [''alice'' \<mapsto> afterFirst], storyLocations = trail\<rparr>)
   \<and> userProgress (initial trail) ''alice'' \<noteq> Some afterFirst
   \<and> everyone ''alice'' user \<and> (1::nat) \<le> 1 \<and> (1::nat) \<le> 3
   \<and> updateMainProgress everyone (initial trail) ''alice'' 1
     = Inr \<lparr>userProgress = [''alice'' \<mapsto> stagedOnly], storyLocations = trail\<rparr>
   \<and> completedOf \<lparr>userProgress = [''alice'' \<mapsto> stagedOnly], storyLocations = trail\<rparr> ''alice'' = []"
proof -
  let ?cs = "[UpdateProgress ''alice'' ''location_1'' []]"
  let ?cs' = "[UpdateProgress ''alice'' ''location_1'' [], UpdateMainProgress ''alice'' 3]"
  have a: "\<not> list_ex isUpdateMainProgress ?cs" by (simp add: isUpdateMainProgress_def)
  have b: "userProgress (run everyone ?cs (initial trail)) ''alice'' = Some afterFirst"
    unfolding run_first by simp
  have b': "userProgress (run everyone ?cs' (initial trail)) ''alice'' = Some stagedAhead"
    unfolding run_first_then_stage3 by simp
  have c: "userProgress (initial trail) ''alice'' \<noteq> Some afterFirst" by (simp add: initial_def)
  have e: "everyone ''alice'' user" by (rule everyone_user)
  note t = stage_flags_and_completions
             [of everyone ?cs trail "''alice''" afterFirst "initial trail" "''alice''"
                 "''location_1''" "[]" afterFirst
                 "\<lparr>userProgress = [''alice'' \<mapsto> afterFirst], storyLocations = trail\<rparr>" 1]
  note t' = stage_flags_and_completions
             [of everyone ?cs' trail "''alice''" stagedAhead "initial trail" "''alice''"
                 "''location_1''" "[]" afterFirst
                 "\<lparr>userProgress = [''alice'' \<mapsto> afterFirst], storyLocations = trail\<rparr>" 1]
  have d: "flagsCover stagedAhead \<and> distinct (completedLocations stagedAhead)"
    using t' [THEN conjunct1] b' by blast
  have f: "flagsConsistent afterFirst"
    using t [THEN conjunct2, THEN conjunct1] a b by blast
  have g: "\<not> flagsConsistent stagedAhead" by (simp add: flagsConsistent_def stagedAhead_def)
  have h: "completedOf \<lparr>userProgress = [''alice'' \<mapsto> stagedOnly], storyLocations = trail\<rparr> ''alice'' = []"
    by (simp add: completedOf_def stagedOnly_def)
  show ?thesis
    by (intro conjI b' d [THEN conjunct1] d [THEN conjunct2] g a b f first_write c e stage1_initial h)
       simp_all
qed

text \<open>
  C2 (as stated) fails: \<open>updateMainProgress\<close> sets the flag of the stage it is given
  whatever the completed locations are. After one call with stage 1 for a new identity the
  record has stage1 set and no completed location.
\<close>

theorem updateMainProgress_sets_flag_without_completion:
  "userProgress (run everyone [UpdateMainProgress ''alice'' 1] (initial trail)) ''alice'' = Some stagedOnly
   \<and> completedLocations stagedOnly = []
   \<and> stage1 (mainProgress stagedOnly)
   \<and> \<not> flagsConsistent stagedOnly"
  by (simp add: updateMainProgress_def ensureProgressInitialized_def initial_def everyone_def
                initialProgress_def stagedOnly_def flagsConsistent_def)

section \<open>Properties of the cache in localStorage\<close>

lemma digit_isDigit: "d < 10 \<Longrightarrow> isDigit (digit d)"
  by (simp add: isDigit_def digit_def)

lemma digitVal_digit: "d < 10 \<Longrightarrow> digitVal (digit d) = d"
  by (simp add: digitVal_def digit_def)

lemma toText_not_Nil: "toText n \<noteq> []"
  by (subst toText.simps) simp

lemma toText_digits: "list_all isDigit (toText n)"
proof (induction n rule: toText.induct)
  case (1 n)
  show ?case
  proof (cases "n < 10")
    case True
    then show ?thesis by (subst toText.simps) (simp add: digit_isDigit)
  next
    case False
    with 1 show ?thesis by (subst toText.simps) (simp add: digit_isDigit)
  qed
qed

lemma toText_value: "foldl (\<lambda>a c. 10 * a + digitVal c) 0 (toText n) = n"
proof (induction n rule: toText.induct)
  case (1 n)
  show ?case
  proof (cases "n < 10")
    case True
    then show ?thesis by (subst toText.simps) (simp add: digitVal_digit)
  next
    case False
    with 1 show ?thesis by (subst toText.simps) (simp add: digitVal_digit)
  qed
qed

lemma BigInt_toText: "BigInt (toText n) = Some n"
  by (simp add: BigInt_def toText_digits toText_value)

lemma bigIntOr_toText: "bigIntOr (toText n) d = Some n"
  by (simp add: bigIntOr_def toText_not_Nil BigInt_toText)

lemma those_BigInt_toText: "those (map (BigInt \<circ> toText) ns) = Some ns"
  by (induction ns) (simp_all add: BigInt_toText)

lemma load_stored:
  "localStorage w =
     Some \<lparr>st_lastCompletedLocation = toText (lastCompletedLocation p),
           st_totalLocations = toText (totalLocations p),
           st_completedLocations = map toText (completedLocations p),
           st_mainProgress = mainProgress p,
           st_currentSequences = map toText (currentSequences p),
           st_timestamp = t, st_synced = b\<rparr>
   \<Longrightarrow> loadProgressFromLocalStorage w = Some p"
  by (simp add: loadProgressFromLocalStorage_def bigIntOr_toText those_BigInt_toText)

lemma load_save: "loadProgressFromLocalStorage (saveProgressToLocalStorage p w) = Some p"
  by (rule load_stored [where p = p and t = "clock w" and b = True])
     (simp add: saveProgressToLocalStorage_def)

lemma load_mark_save:
  "loadProgressFromLocalStorage (markProgressAsUnsynced (saveProgressToLocalStorage p w)) = Some p"
  by (rule load_stored [where p = p and t = "clock w" and b = False])
     (simp add: saveProgressToLocalStorage_def markProgressAsUnsynced_def)

text \<open>
  C9. Saving a progress record to \<open>localStorage\<close> and loading it back gives the record
  itself, whatever the size of its numbers: each integer is written as its decimal text and
  read back digit by digit. Marking the saved entry as unsynced does not change what is
  loaded.
\<close>

theorem save_load_roundtrip:
  "loadProgressFromLocalStorage (saveProgressToLocalStorage p w) = Some p
   \<and> loadProgressFromLocalStorage (markProgressAsUnsynced (saveProgressToLocalStorage p w)) = Some p"
  by (intro conjI load_save load_mark_save)

lemma toText_far: "toText 9007199254740993 = ''9007199254740993''"
  by (simp add: toText.simps digit_simps)

theorem save_load_roundtrip_witness:
  "loadProgressFromLocalStorage (saveProgressToLocalStorage farRecord emptyWorld) = Some farRecord
   \<and> lastCompletedLocation farRecord = 9007199254740993
   \<and> map_option st_lastCompletedLocation (localStorage (saveProgressToLocalStorage farRecord emptyWorld))
     = Some ''9007199254740993''"
  using save_load_roundtrip [of farRecord emptyWorld]
  by (simp add: saveProgressToLocalStorage_def farRecord_def toText_far)

section \<open>Properties of the retry helper\<close>

lemma retryLoop_succeeds_at:
  assumes "attempt \<le> j" and "j \<le> maxRetries"
    and "\<And>i. i < j \<Longrightarrow> isl (fst (operation (attemptState sleepFor operation maxRetries i s)))"
    and "operation (attemptState sleepFor operation maxRetries j s) = (Inr r, s')"
  shows "retryLoop sleepFor operation maxRetries attempt lastError
           (attemptState sleepFor operation maxRetries attempt s)
         = (\<lparr>success = True, result = Some r, error = None, attempts = j + 1\<rparr>, s')"
  using assms(1)
proof (induction "j - attempt" arbitrary: attempt lastError)
  case 0
  then have "attempt = j" by simp
  then show ?case using assms(2,4) by (subst retryLoop.simps) simp
next
  case (Suc k)
  then have lt: "attempt < j" by simp
  then have le: "attempt \<le> maxRetries" and lt': "attempt < maxRetries" using assms(2) by simp_all
  obtain e s1 where op: "operation (attemptState sleepFor operation maxRetries attempt s) = (Inl e, s1)"
    using assms(3) [OF lt]
    by (cases "operation (attemptState sleepFor operation maxRetries attempt s)") (auto simp: isl_def)
  have nxt: "attemptState sleepFor operation maxRetries (Suc attempt) s = sleepFor (500 * 2 ^ attempt) s1"
    using op lt' by simp
  have k: "k = j - Suc attempt" using Suc.hyps(2) by simp
  have "retryLoop sleepFor operation maxRetries (Suc attempt) (Some e)
          (attemptState sleepFor operation maxRetries (Suc attempt) s)
        = (\<lparr>success = True, result = Some r, error = None, attempts = j + 1\<rparr>, s')"
    by (rule Suc.hyps(1) [OF k]) (use lt in simp)
  then show ?case
    using le lt' op unfolding nxt by (subst retryLoop.simps) simp
qed

lemma retryLoop_fails_at:
  assumes "attempt \<le> maxRetries"
    and "\<And>i. i < maxRetries \<Longrightarrow> isl (fst (operation (attemptState sleepFor operation maxRetries i s)))"
    and "operation (attemptState sleepFor operation maxRetries maxRetries s) = (Inl e, s')"
  shows "retryLoop sleepFor operation maxRetries attempt lastError
           (attemptState sleepFor operation maxRetries attempt s)
         = (\<lparr>success = False, result = None, error = Some e, attempts = maxRetries + 1\<rparr>, s')"
  using assms(1)
proof (induction "maxRetries - attempt" arbitrary: attempt lastError)
  case 0
  then have eq: "attempt = maxRetries" by simp
  have "retryLoop sleepFor operation maxRetries (maxRetries + 1) (Some e) s'
        = (\<lparr>success = False, result = None, error = Some e, attempts = maxRetries + 1\<rparr>, s')"
    by (subst retryLoop.simps) simp
  then show ?case unfolding eq using assms(3) by (subst retryLoop.simps) simp
next
  case (Suc k)
  then have lt: "attempt < maxRetries" by simp
  obtain e1 s1 where op: "operation (attemptState sleepFor operation maxRetries attempt s) = (Inl e1, s1)"
    using assms(2) [OF lt]
    by (cases "operation (attemptState sleepFor operation maxRetries attempt s)") (auto simp: isl_def)
  have nxt: "attemptState sleepFor operation maxRetries (Suc attempt) s = sleepFor (500 * 2 ^ attempt) s1"
    using op lt by simp
  have k: "k = maxRetries - Suc attempt" using Suc.hyps(2) by simp
  have "retryLoop sleepFor operation maxRetries (Suc attempt) (Some e1)
          (attemptState sleepFor operation maxRetries (Suc attempt) s)
        = (\<lparr>success = False, result = None, error = Some e, attempts = maxRetries + 1\<rparr>, s')"
    by (rule Suc.hyps(1) [OF k]) (use lt in simp)
  then show ?case
    using lt op unfolding nxt by (subst retryLoop.simps) simp
qed

text \<open>
  C5 (as amended). \<open>retryWithBackoff\<close> does not tell failure classes apart. A run of the
  operation that fails, whatever its error, is followed by another run, after the wait, as long
  as fewer than \<open>maxRetries + 1\<close> runs have been made. The executor returns at the first run
  that succeeds, with the result of that run and the number of runs made; and when
  \<open>maxRetries + 1\<close> runs have failed it returns, without a further wait, the error of the
  last of them. So a terminal failure is repeated like a retriable one.
\<close>

theorem retryWithBackoff_outcome:
  "(j \<le> maxRetries
      \<and> (\<forall>i<j. isl (fst (operation (attemptState sleepFor operation maxRetries i s))))
      \<and> operation (attemptState sleepFor operation maxRetries j s) = (Inr r, s')
    \<longrightarrow> retryWithBackoff sleepFor operation maxRetries s
        = (\<lparr>success = True, result = Some r, error = None, attempts = j + 1\<rparr>, s'))
   \<and> ((\<forall>i<maxRetries. isl (fst (operation (attemptState sleepFor operation maxRetries i s))))
      \<and> operation (attemptState sleepFor operation maxRetries maxRetries s) = (Inl e, s')
    \<longrightarrow> retryWithBackoff sleepFor operation maxRetries s
        = (\<lparr>success = False, result = None, error = Some e, attempts = maxRetries + 1\<rparr>, s'))"
proof (intro conjI impI)
  assume h: "j \<le> maxRetries
      \<and> (\<forall>i<j. isl (fst (operation (attemptState sleepFor operation maxRetries i s))))
      \<and> operation (attemptState sleepFor operation maxRetries j s) = (Inr r, s')"
  show "retryWithBackoff sleepFor operation maxRetries s
        = (\<lparr>success = True, result = Some r, error = None, attempts = j + 1\<rparr>, s')"
    using retryLoop_succeeds_at [of 0 j maxRetries operation sleepFor s r s' None] h
    by (simp add: retryWithBackoff_def)
next
  assume h: "(\<forall>i<maxRetries. isl (fst (operation (attemptState sleepFor operation maxRetries i s))))
      \<and> operation (attemptState sleepFor operation maxRetries maxRetries s) = (Inl e, s')"
  show "retryWithBackoff sleepFor operation maxRetries s
        = (\<lparr>success = False, result = None, error = Some e, attempts = maxRetries + 1\<rparr>, s')"
    using retryLoop_fails_at [of 0 maxRetries operation sleepFor s e s' None] h
    by (simp add: retryWithBackoff_def)
qed

lemma attemptState_failsOnce:
  "attemptState noDelay failsOnce 2 0 0 = 0" "attemptState noDelay failsOnce 2 1 0 = 1"
  by (simp_all add: failsOnce_def noDelay_def)

lemma attemptState_failsDifferently:
  "attemptState noDelay failsDifferently 2 0 0 = 0" "attemptState noDelay failsDifferently 2 1 0 = 1"
  "attemptState noDelay failsDifferently 2 2 0 = 2"
  by (simp_all add: failsDifferently_def noDelay_def numeral_2_eq_2)

theorem retryWithBackoff_outcome_witness:
  "(1::nat) \<le> 2
   \<and> isl (fst (failsOnce (attemptState noDelay failsOnce 2 0 0)))
   \<and> failsOnce (attemptState noDelay failsOnce 2 1 0) = (Inr 1, 2)
   \<and> retryWithBackoff noDelay failsOnce 2 0
     = (\<lparr>success = True, result = Some 1, error = None, attempts = 2\<rparr>, 2)
   \<and> isl (fst (failsDifferently (attemptState noDelay failsDifferently 2 0 0)))
   \<and> isl (fst (failsDifferently (attemptState noDelay failsDifferently 2 1 0)))
   \<and> failsDifferently (attemptState noDelay failsDifferently 2 2 0)
     = (Inl ''Authentication required. Please log in again.'', 3)
   \<and> retryWithBackoff noDelay failsDifferently 2 0
     = (\<lparr>success = False, result = None,
          error = Some ''Authentication required. Please log in again.'', attempts = 3\<rparr>, 3)"
proof -
  have a0: "isl (fst (failsOnce (attemptState noDelay failsOnce 2 0 0)))"
    by (simp add: failsOnce_def)
  have a: "\<forall>i<1. isl (fst (failsOnce (attemptState noDelay failsOnce 2 i 0)))"
    using a0 by simp
  have b: "failsOnce (attemptState noDelay failsOnce 2 1 0) = (Inr 1, 2)"
    unfolding attemptState_failsOnce by (simp add: failsOnce_def)
  have c0: "isl (fst (failsDifferently (attemptState noDelay failsDifferently 2 0 0)))"
    and c1: "isl (fst (failsDifferently (attemptState noDelay failsDifferently 2 1 0)))"
    by (simp_all add: failsDifferently_def)
  have c: "\<forall>i<2. isl (fst (failsDifferently (attemptState noDelay failsDifferently 2 i 0)))"
    by (simp add: failsDifferently_def)
  have d: "failsDifferently (attemptState noDelay failsDifferently 2 2 0)
           = (Inl ''Authentication required. Please log in again.'', 3)"
    unfolding attemptState_failsDifferently by (simp add: failsDifferently_def)
  have e: "retryWithBackoff noDelay failsOnce 2 0
           = (\<lparr>success = True, result = Some 1, error = None, attempts = 2\<rparr>, 2)"
    using retryWithBackoff_outcome [of 1 2 failsOnce noDelay 0 1 2, THEN conjunct1] a b by simp
  have f: "retryWithBackoff noDelay failsDifferently 2 0
           = (\<lparr>success = False, result = None,
                error = Some ''Authentication required. Please log in again.'', attempts = 3\<rparr>, 3)"
    using retryWithBackoff_outcome
            [of 1 2 failsDifferently noDelay 0 1 3
                "''Authentication required. Please log in again.''", THEN conjunct2] c d
    by simp
  show ?thesis by (intro conjI a0 b c0 c1 d e f) simp
qed

text \<open>
  C5 (as stated) fails: an operation that always rejects with the authentication error, a
  terminal failure, is run three times under \<open>retryWithBackoff\<close> with
  \<open>maxRetries = 2\<close>; it does not return at the first occurrence.
\<close>

theorem retryWithBackoff_repeats_terminal_failure:
  "retryWithBackoff (sleepCounted noWait) (counted rejectUnauthorized) 2 ((), 0)
   = (\<lparr>success = False, result = None,
        error = Some ''Authentication required. Please log in again.'', attempts = 3\<rparr>, ((), 3))"
  by (simp add: retryWithBackoff_def retryLoop.simps counted_def sleepCounted_def rejectUnauthorized_def
                noWait_def)

section \<open>Completed locations only grow\<close>

lemma exec_completed_prefix: "prefix (completedOf s u) (completedOf (exec hp c s) u)"
  by (cases c)
     (auto simp: completedOf_def updateProgress_def updateMainProgress_def initializeLocations_def
                 ensureProgressInitialized_def initialProgress_def Let_def
           split: option.splits if_splits sum.splits prod.splits)

lemma run_completed_prefix: "prefix (completedOf s u) (completedOf (run hp cs s) u)"
proof (induction cs arbitrary: s)
  case Nil
  show ?case by simp
next
  case (Cons c cs)
  have "prefix (completedOf s u) (completedOf (exec hp c s) u)" by (rule exec_completed_prefix)
  also have "prefix \<dots> (completedOf (run hp cs (exec hp c s)) u)" by (rule Cons.IH)
  finally show ?case by simp
qed

lemma grows_refl: "grows w w"
  by (simp add: grows_def)

lemma grows_trans: "grows w w' \<Longrightarrow> grows w' w'' \<Longrightarrow> grows w w''"
  unfolding grows_def using prefix_order.trans by blast

lemma grows_same_backend: "backend w' = backend w \<Longrightarrow> grows w w'"
  by (simp add: grows_def)

lemma grows_cong_left: "backend w0 = backend w \<Longrightarrow> grows w w' \<Longrightarrow> grows w0 w'"
  by (simp add: grows_def)

subsection \<open>What the actor calls change\<close>

lemma actor_updateProgress_backend:
  "backend (snd (actor_updateProgress hp me lid ws w)) = backend w
   \<or> backend (snd (actor_updateProgress hp me lid ws w)) = exec hp (UpdateProgress me lid ws) (backend w)"
  by (auto simp: actor_updateProgress_def split: list.splits delivery.splits sum.splits prod.splits)

lemma actor_updateProgress_grows: "grows w (snd (actor_updateProgress hp me lid ws w))"
  using actor_updateProgress_backend [of hp me lid ws w]
proof
  assume "backend (snd (actor_updateProgress hp me lid ws w)) = backend w"
  then show ?thesis by (simp add: grows_def)
next
  assume e: "backend (snd (actor_updateProgress hp me lid ws w))
             = exec hp (UpdateProgress me lid ws) (backend w)"
  show ?thesis unfolding grows_def e by (intro allI exec_completed_prefix)
qed

lemma actor_updateProgress_frame:
  "localStorage (snd (actor_updateProgress hp me lid ws w)) = localStorage w"
  "queryData (snd (actor_updateProgress hp me lid ws w)) = queryData w"
  "clock (snd (actor_updateProgress hp me lid ws w)) = clock w"
  "network (snd (actor_updateProgress hp me lid ws w)) = tl (network w)"
  by (auto simp: actor_updateProgress_def split: list.splits delivery.splits sum.splits prod.splits)

lemma actor_getUserProgress_frame:
  "backend (snd (actor_getUserProgress hp me w)) = backend w"
  "localStorage (snd (actor_getUserProgress hp me w)) = localStorage w"
  "queryData (snd (actor_getUserProgress hp me w)) = queryData w"
  "clock (snd (actor_getUserProgress hp me w)) = clock w"
  "network (snd (actor_getUserProgress hp me w)) = tl (network w)"
  by (auto simp: actor_getUserProgress_def split: list.splits delivery.splits sum.splits prod.splits)

lemma sleep_frame:
  "backend (sleep d w) = backend w" "localStorage (sleep d w) = localStorage w"
  "queryData (sleep d w) = queryData w" "network (sleep d w) = network w"
  by (simp_all add: sleep_def)

lemma save_frame:
  "backend (saveProgressToLocalStorage p w) = backend w"
  "queryData (saveProgressToLocalStorage p w) = queryData w"
  "network (saveProgressToLocalStorage p w) = network w"
  "clock (saveProgressToLocalStorage p w) = clock w"
  by (simp_all add: saveProgressToLocalStorage_def)

lemma markUnsynced_frame:
  "backend (markProgressAsUnsynced w) = backend w"
  "queryData (markProgressAsUnsynced w) = queryData w"
  "network (markProgressAsUnsynced w) = network w"
  "clock (markProgressAsUnsynced w) = clock w"
  by (simp_all add: markProgressAsUnsynced_def split: option.splits)

lemma markAsSynced_frame:
  "backend (markAsSynced w) = backend w"
  "queryData (markAsSynced w) = queryData w"
  "network (markAsSynced w) = network w"
  "clock (markAsSynced w) = clock w"
  by (simp_all add: markAsSynced_def split: option.splits)

lemma saveLocally_frame:
  "backend (saveLocallyForLaterSync lid ws w) = backend w"
  "queryData (saveLocallyForLaterSync lid ws w) = queryData w"
  "network (saveLocallyForLaterSync lid ws w) = network w"
  "clock (saveLocallyForLaterSync lid ws w) = clock w"
  by (simp_all add: saveLocallyForLaterSync_def Let_def save_frame markUnsynced_frame)

lemma catchUpdateError_frame:
  "backend (snd (catchUpdateError lid ws m w)) = backend w"
  "queryData (snd (catchUpdateError lid ws m w)) = queryData w"
  "network (snd (catchUpdateError lid ws m w)) = network w"
  "clock (snd (catchUpdateError lid ws m w)) = clock w"
  by (simp_all add: catchUpdateError_def Let_def saveLocally_frame)

lemma verifyLoop_backend:
  "backend (snd (verifyLoop hp me n maxRetries attempt w)) = backend w"
proof (induction "Suc maxRetries - attempt" arbitrary: attempt w)
  case 0
  then have "\<not> attempt \<le> maxRetries" by simp
  then show ?case by (subst verifyLoop.simps) simp
next
  case (Suc k)
  then have le: "attempt \<le> maxRetries" by simp
  have k: "k = Suc maxRetries - Suc attempt" using Suc.hyps(2) by simp
  note IH = Suc.hyps(1) [OF k]
  show ?case
    using le
    by (subst verifyLoop.simps)
       (simp add: split_beta IH actor_getUserProgress_frame sleep_frame split: sum.splits)
qed

lemma mutationFn_grows: "grows w (snd (mutationFn hp me lid ws w))"
proof -
  obtain r w1 where c: "actor_updateProgress hp me lid ws w = (r, w1)"
    by (cases "actor_updateProgress hp me lid ws w")
  have g1: "grows w w1" using actor_updateProgress_grows [of w hp me lid ws] c by simp
  have "backend (snd (mutationFn hp me lid ws w)) = backend w1"
    using c
    by (simp add: mutationFn_def Let_def split_beta catchUpdateError_frame save_frame
                  verifyProgressSaved_def verifyLoop_backend
             split: sum.splits bool.splits option.splits)
  then show ?thesis using g1 by (simp add: grows_def)
qed

lemma mutationAttempts_grows:
  "grows w (snd (mutationAttempts hp me lid ws retry failureCount w))"
proof (induction "retry - failureCount" arbitrary: failureCount w)
  case 0
  then have "\<not> failureCount < retry" by simp
  then show ?case
    using mutationFn_grows [of w hp me lid ws]
    by (subst mutationAttempts.simps) (simp add: split_beta split: sum.splits)
next
  case (Suc k)
  then have lt: "failureCount < retry" by simp
  have k: "k = retry - Suc failureCount" using Suc.hyps(2) by simp
  let ?w1 = "snd (mutationFn hp me lid ws w)"
  let ?w2 = "sleep (min (500 * 2 ^ failureCount) 2000) ?w1"
  have g1: "grows w ?w1" by (rule mutationFn_grows)
  have "grows ?w2 (snd (mutationAttempts hp me lid ws retry (Suc failureCount) ?w2))"
    by (rule Suc.hyps(1) [OF k])
  then have "grows ?w1 (snd (mutationAttempts hp me lid ws retry (Suc failureCount) ?w2))"
    by (rule grows_cong_left [rotated]) (simp add: sleep_frame)
  with g1 have g: "grows w (snd (mutationAttempts hp me lid ws retry (Suc failureCount) ?w2))"
    by (rule grows_trans)
  show ?case
    using lt g g1
    by (subst mutationAttempts.simps) (simp add: split_beta split: sum.splits)
qed

lemma syncLoop_grows: "grows w (snd (syncLoop hp me seqs ks w))"
proof (induction ks arbitrary: w)
  case Nil
  show ?case by (simp add: grows_refl)
next
  case (Cons k ks)
  obtain r w1 where c: "actor_updateProgress hp me (''location_'' @ toText k) seqs w = (r, w1)"
    by (cases "actor_updateProgress hp me (''location_'' @ toText k) seqs w")
  have g1: "grows w w1"
    using actor_updateProgress_grows [of w hp me "''location_'' @ toText k" seqs] c by simp
  show ?case
  proof (cases r)
    case (Inl e)
    with c g1 show ?thesis by simp
  next
    case (Inr p)
    with c have "snd (syncLoop hp me seqs (k # ks) w) = snd (syncLoop hp me seqs ks w1)" by simp
    with g1 Cons.IH [of w1] show ?thesis using grows_trans by simp
  qed
qed

lemma syncUnsyncedProgress_grows: "grows w (snd (syncUnsyncedProgress hp me w))"
proof -
  let ?w1 = "snd (actor_getUserProgress hp me w)"
  have b1: "backend ?w1 = backend w" by (rule actor_getUserProgress_frame(1))
  have g: "\<And>seqs ks. grows w (snd (syncLoop hp me seqs ks ?w1))"
    using syncLoop_grows [of ?w1 hp me] b1 by (simp add: grows_def)
  have "backend (snd (syncUnsyncedProgress hp me w)) = backend w
        \<or> (\<exists>seqs ks. backend (snd (syncUnsyncedProgress hp me w))
                           = backend (snd (syncLoop hp me seqs ks ?w1)))"
    by (simp add: syncUnsyncedProgress_def Let_def split_beta markAsSynced_frame b1
             split: option.splits sum.splits bool.splits) blast
  then show ?thesis using g by (auto simp: grows_def)
qed

lemma queryFn_grows: "grows w (snd (queryFn hp me w))"
proof -
  let ?w1 = "snd (syncUnsyncedProgress hp me w)"
  have g: "grows w ?w1" by (rule syncUnsyncedProgress_grows)
  have "backend (snd (queryFn hp me w)) = backend ?w1"
    by (simp add: queryFn_def split_beta save_frame markUnsynced_frame actor_getUserProgress_frame
             split: sum.splits option.splits)
  with g show ?thesis by (simp add: grows_def)
qed

lemma invalidateQueries_grows: "grows w (invalidateQueries hp me w)"
  by (simp add: invalidateQueries_def queryFn_grows)

lemma onSettled_grows: "grows w (onSettled hp me w)"
  by (simp add: onSettled_def invalidateQueries_grows)

lemma onSuccess_grows: "grows w (onSuccess hp me d w)"
  unfolding onSuccess_def
  by (rule grows_cong_left [OF _ invalidateQueries_grows]) simp

lemma onMutate_frame:
  "backend (snd (onMutate lid w)) = backend w"
  "localStorage (snd (onMutate lid w)) = localStorage w"
  "network (snd (onMutate lid w)) = network w"
  "clock (snd (onMutate lid w)) = clock w"
  by (simp_all add: onMutate_def Let_def split: option.splits)

lemma onError_frame:
  "backend (onError m prev w) = backend w"
  "localStorage (onError m prev w) = localStorage w"
  "network (onError m prev w) = network w"
  "clock (onError m prev w) = clock w"
  by (simp_all add: onError_def Let_def split: option.splits)

lemma onError_grows: "grows w (onError m prev w)"
  by (rule grows_same_backend) (rule onError_frame)

lemma mutateAsync_grows: "grows w (snd (mutateAsync hp me lid ws w))"
proof -
  obtain prev w1 where a: "onMutate lid w = (prev, w1)" by (cases "onMutate lid w")
  obtain r w2 where b: "mutationAttempts hp me lid ws 3 0 w1 = (r, w2)"
    by (cases "mutationAttempts hp me lid ws 3 0 w1")
  have "backend w1 = backend w" using onMutate_frame(1) [of lid w] a by simp
  moreover have "grows w1 w2" using mutationAttempts_grows [of w1 hp me lid ws 3 0] b by simp
  ultimately have g: "grows w w2" by (simp add: grows_def)
  show ?thesis
  proof (cases r)
    case (Inr d)
    have "grows w2 (onSettled hp me (onSuccess hp me d w2))"
      by (rule grows_trans [OF onSuccess_grows onSettled_grows])
    with g have "grows w (onSettled hp me (onSuccess hp me d w2))" by (rule grows_trans)
    with a b Inr show ?thesis by (simp add: mutateAsync_def)
  next
    case (Inl m)
    have "grows w2 (onSettled hp me (onError m prev w2))"
      by (rule grows_trans [OF onError_grows onSettled_grows])
    with g have "grows w (onSettled hp me (onError m prev w2))" by (rule grows_trans)
    with a b Inl show ?thesis by (simp add: mutateAsync_def)
  qed
qed

lemma retryLoop_preserves:
  assumes "\<And>s. R s s" and "\<And>s s' s''. R s s' \<Longrightarrow> R s' s'' \<Longrightarrow> R s s''"
    and "\<And>s. R s (snd (operation s))" and "\<And>d s. R s (sleepFor d s)"
  shows "R s (snd (retryLoop sleepFor operation maxRetries attempt lastError s))"
proof (induction "Suc maxRetries - attempt" arbitrary: attempt lastError s)
  case 0
  then have "\<not> attempt \<le> maxRetries" by simp
  then show ?case by (subst retryLoop.simps) (simp add: assms(1))
next
  case (Suc k)
  then have le: "attempt \<le> maxRetries" by simp
  obtain r s1 where op: "operation s = (r, s1)" by (cases "operation s")
  have r1: "R s s1" using assms(3) [of s] op by simp
  show ?case
  proof (cases r)
    case (Inr x)
    with le op r1 show ?thesis by (subst retryLoop.simps) simp
  next
    case (Inl e)
    define s2 where "s2 = (if attempt < maxRetries then sleepFor (500 * 2 ^ attempt) s1 else s1)"
    have r2: "R s1 s2" by (simp add: s2_def assms(1) assms(4))
    have k: "k = Suc maxRetries - (attempt + 1)" using Suc.hyps(2) by simp
    have "R s2 (snd (retryLoop sleepFor operation maxRetries (attempt + 1) (Some e) s2))"
      by (rule Suc.hyps(1) [OF k])
    with r1 r2 have "R s (snd (retryLoop sleepFor operation maxRetries (attempt + 1) (Some e) s2))"
      using assms(2) by blast
    with le op Inl show ?thesis by (subst retryLoop.simps) (simp add: s2_def)
  qed
qed

lemma handleComplete_grows: "grows w (snd (handleComplete hp me locationId w))"
proof (cases locationId)
  case None
  then show ?thesis by (simp add: handleComplete_def grows_refl)
next
  case (Some lid)
  show ?thesis
  proof (cases "lid = []")
    case True
    with Some show ?thesis by (simp add: handleComplete_def grows_refl)
  next
    case False
    obtain br w1 where a: "retryWithBackoff sleep (mutateAsync hp me lid []) 2 w = (br, w1)"
      by (cases "retryWithBackoff sleep (mutateAsync hp me lid []) 2 w")
    have "grows w (snd (retryLoop sleep (mutateAsync hp me lid []) 2 0 None w))"
      by (rule retryLoop_preserves [where R = grows])
         (auto intro: grows_refl grows_trans mutateAsync_grows grows_same_backend simp: sleep_frame)
    then have g: "grows w w1" using a by (simp add: retryWithBackoff_def)
    have "snd (handleComplete hp me locationId w) = w1
          \<or> snd (handleComplete hp me locationId w)
              = invalidateQueries hp me (w1\<lparr>queryData := result br\<rparr>)"
      using Some False a by (simp add: handleComplete_def Let_def)
    moreover have "grows w1 (invalidateQueries hp me (w1\<lparr>queryData := result br\<rparr>))"
      by (rule grows_cong_left [OF _ invalidateQueries_grows]) simp
    ultimately show ?thesis using g grows_trans by auto
  qed
qed

lemma grows_subset: "grows w w' \<Longrightarrow> set (completedOf (backend w) u) \<subseteq> set (completedOf (backend w') u)"
  unfolding grows_def by (rule set_mono_prefix) simp

text \<open>
  C7. The completed locations the canister holds for an identity never shrink: not across
  any sequence of calls of \<open>updateProgress\<close>, \<open>updateMainProgress\<close>,
  \<open>getUserProgress\<close> and \<open>initializeLocations\<close> by any callers, and not across
  the client's reconciliation, its completion of a quest, or its refetch of the progress,
  whatever the network does.
\<close>

theorem completedLocations_never_shrink:
  "set (completedOf s u) \<subseteq> set (completedOf (run hp cs s) u)
   \<and> set (completedOf (backend w) u) \<subseteq> set (completedOf (backend (snd (syncUnsyncedProgress hp me w))) u)
   \<and> set (completedOf (backend w) u) \<subseteq> set (completedOf (backend (snd (handleComplete hp me locationId w))) u)
   \<and> set (completedOf (backend w) u) \<subseteq> set (completedOf (backend (snd (queryFn hp me w))) u)"
proof (intro conjI)
  show "set (completedOf s u) \<subseteq> set (completedOf (run hp cs s) u)"
    by (rule set_mono_prefix) (rule run_completed_prefix)
qed (rule grows_subset, rule syncUnsyncedProgress_grows handleComplete_grows queryFn_grows)+

section \<open>Properties of reconciliation\<close>

lemma actor_updateProgress_Inl:
  "actor_updateProgress hp me lid ws w = (Inl e, w1) \<Longrightarrow> backend w1 = backend w"
  by (auto simp: actor_updateProgress_def split: delivery.splits sum.splits prod.splits)

lemma actor_updateProgress_Inr:
  "actor_updateProgress hp me lid ws w = (Inr p, w1)
   \<Longrightarrow> updateProgress hp (backend w) me lid ws = Inr (p, backend w1)
       \<and> backend w1 = exec hp (UpdateProgress me lid ws) (backend w)"
  by (auto simp: actor_updateProgress_def split: delivery.splits sum.splits prod.splits)

lemma exec_storyLocations_UpdateProgress:
  "storyLocations (exec hp (UpdateProgress me lid ws) s) = storyLocations s"
  by (auto simp: updateProgress_def ensureProgressInitialized_def Let_def
           split: sum.splits option.splits if_splits prod.splits)

lemma actor_updateProgress_storyLocations:
  "storyLocations (backend (snd (actor_updateProgress hp me lid ws w))) = storyLocations (backend w)"
  using actor_updateProgress_backend [of hp me lid ws w]
  by (auto simp only: exec_storyLocations_UpdateProgress)

lemma syncLoop_frame:
  "localStorage (snd (syncLoop hp me seqs ks w)) = localStorage w
   \<and> queryData (snd (syncLoop hp me seqs ks w)) = queryData w
   \<and> storyLocations (backend (snd (syncLoop hp me seqs ks w))) = storyLocations (backend w)"
proof (induction ks arbitrary: w)
  case Nil
  show ?case by simp
next
  case (Cons k ks)
  let ?w1 = "snd (actor_updateProgress hp me (''location_'' @ toText k) seqs w)"
  have f: "localStorage ?w1 = localStorage w" "queryData ?w1 = queryData w"
    "storyLocations (backend ?w1) = storyLocations (backend w)"
    by (simp_all add: actor_updateProgress_frame actor_updateProgress_storyLocations)
  show ?case using Cons.IH [of ?w1] f by (simp add: split_beta split: sum.splits)
qed

lemma nextOutcome_outcomeAt: "nextOutcome w = outcomeAt w 0"
  by (cases "network w") (simp_all add: nextOutcome_def outcomeAt_def)

lemma outcomeAt_tl:
  "outcomeAt (w\<lparr>backend := b, network := tl (network w)\<rparr>) i = outcomeAt w (Suc i)"
  by (cases "network w") (simp_all add: outcomeAt_def)

lemma actor_updateProgress_success:
  assumes "nextOutcome w = Delivered" and "updateProgress hp (backend w) me lid ws = Inr (p, b)"
  shows "actor_updateProgress hp me lid ws w = (Inr p, w\<lparr>backend := b, network := tl (network w)\<rparr>)"
  using assms by (simp add: actor_updateProgress_def)

lemma actor_updateProgress_failure:
  assumes "nextOutcome w \<noteq> Delivered \<or> isl (updateProgress hp (backend w) me lid ws)"
  shows "\<exists>e. actor_updateProgress hp me lid ws w = (Inl e, w\<lparr>network := tl (network w)\<rparr>)"
  using assms
  by (cases "nextOutcome w"; cases "updateProgress hp (backend w) me lid ws")
     (auto simp: actor_updateProgress_def)

lemma replaySucceeds_0:
  "replaySucceeds hp me seqs (k # ks) w 0
   = (nextOutcome w = Delivered
      \<and> \<not> isl (updateProgress hp (backend w) me (''location_'' @ toText k) seqs))"
  by (simp add: replaySucceeds_def nextOutcome_outcomeAt)

lemma replaySucceeds_Suc:
  "replaySucceeds hp me seqs (k # ks) w (Suc i)
   = replaySucceeds hp me seqs ks
       (w\<lparr>backend := exec hp (replayCall me seqs k) (backend w), network := tl (network w)\<rparr>) i"
  by (simp add: replaySucceeds_def outcomeAt_tl split: list.splits)

lemma replaySucceeds_end: "\<not> replaySucceeds hp me seqs ks w (length ks)"
  by (simp add: replaySucceeds_def)

lemma first_success:
  assumes "replaySucceeds hp me seqs (k # ks) w 0"
  obtains p where
    "actor_updateProgress hp me (''location_'' @ toText k) seqs w
     = (Inr p, w\<lparr>backend := exec hp (replayCall me seqs k) (backend w), network := tl (network w)\<rparr>)"
    "updateProgress hp (backend w) me (''location_'' @ toText k) seqs
     = Inr (p, exec hp (replayCall me seqs k) (backend w))"
proof -
  from assms have d: "nextOutcome w = Delivered"
    and n: "\<not> isl (updateProgress hp (backend w) me (''location_'' @ toText k) seqs)"
    by (simp_all add: replaySucceeds_0)
  from n obtain p b where u: "updateProgress hp (backend w) me (''location_'' @ toText k) seqs = Inr (p, b)"
    by (cases "updateProgress hp (backend w) me (''location_'' @ toText k) seqs") auto
  then have b: "b = exec hp (replayCall me seqs k) (backend w)" by (simp add: replayCall_def)
  show ?thesis
    using that [of p] actor_updateProgress_success [OF d u] u unfolding b by simp
qed

lemma syncLoop_exact:
  assumes "j \<le> length ks" and "\<And>i. i < j \<Longrightarrow> replaySucceeds hp me seqs ks w i"
    and "\<not> replaySucceeds hp me seqs ks w j"
  shows "syncLoop hp me seqs ks w = (j = length ks, afterReplays hp me seqs ks j w)"
  using assms
proof (induction ks arbitrary: j w)
  case Nil
  then show ?case by (simp add: afterReplays_def)
next
  case (Cons k ks)
  show ?case
  proof (cases j)
    case 0
    with Cons.prems(3) have
      "nextOutcome w \<noteq> Delivered \<or> isl (updateProgress hp (backend w) me (''location_'' @ toText k) seqs)"
      by (simp add: replaySucceeds_0)
    from actor_updateProgress_failure [OF this] obtain e where
      "actor_updateProgress hp me (''location_'' @ toText k) seqs w = (Inl e, w\<lparr>network := tl (network w)\<rparr>)"
      by blast
    with 0 show ?thesis by (simp add: afterReplays_def drop_Suc)
  next
    case (Suc j')
    have "replaySucceeds hp me seqs (k # ks) w 0" using Cons.prems(2) [of 0] Suc by simp
    from first_success [OF this] obtain p where
      a: "actor_updateProgress hp me (''location_'' @ toText k) seqs w
          = (Inr p, w\<lparr>backend := exec hp (replayCall me seqs k) (backend w), network := tl (network w)\<rparr>)"
      by blast
    let ?w1 = "w\<lparr>backend := exec hp (replayCall me seqs k) (backend w), network := tl (network w)\<rparr>"
    have "syncLoop hp me seqs ks ?w1 = (j' = length ks, afterReplays hp me seqs ks j' ?w1)"
    proof (rule Cons.IH)
      show "j' \<le> length ks" using Cons.prems(1) Suc by simp
      show "\<not> replaySucceeds hp me seqs ks ?w1 j'"
        using Cons.prems(3) Suc by (simp add: replaySucceeds_Suc)
    next
      fix i assume "i < j'"
      then show "replaySucceeds hp me seqs ks ?w1 i"
        using Cons.prems(2) [of "Suc i"] Suc by (simp add: replaySucceeds_Suc)
    qed
    moreover have "afterReplays hp me seqs ks j' ?w1 = afterReplays hp me seqs (k # ks) (Suc j') w"
      by (simp add: afterReplays_def drop_Suc)
    ultimately show ?thesis using a Suc by simp
  qed
qed

lemma first_failure_exists:
  "\<exists>j\<le>length ks. (\<forall>i<j. replaySucceeds hp me seqs ks w i) \<and> \<not> replaySucceeds hp me seqs ks w j"
proof -
  let ?P = "\<lambda>i. \<not> replaySucceeds hp me seqs ks w i"
  have e: "?P (length ks)" by (rule replaySucceeds_end)
  have "(LEAST i. ?P i) \<le> length ks" using e by (rule Least_le)
  moreover have "?P (LEAST i. ?P i)" using e by (rule LeastI)
  moreover have "\<forall>i<(LEAST i. ?P i). replaySucceeds hp me seqs ks w i"
    using not_less_Least by blast
  ultimately show ?thesis by blast
qed

lemma run_replays_storyLocations:
  "storyLocations (run hp (map (replayCall me seqs) ks) s) = storyLocations s"
proof (induction ks arbitrary: s)
  case Nil
  show ?case by simp
next
  case (Cons k ks)
  have "storyLocations (exec hp (replayCall me seqs k) s) = storyLocations s"
    unfolding replayCall_def by (rule exec_storyLocations_UpdateProgress)
  then show ?case using Cons.IH [of "exec hp (replayCall me seqs k) s"] by simp
qed

lemma writtenFor_run_replays:
  assumes "writtenFor s me lid"
  shows "writtenFor (run hp (map (replayCall me seqs) ks) s) me lid"
proof -
  from assms obtain loc where l: "storyLocations s lid = Some loc"
    "sequenceNumber loc \<in> set (completedOf s me)"
    by (auto simp: writtenFor_def list_ex_iff split: option.splits)
  have "set (completedOf s me) \<subseteq> set (completedOf (run hp (map (replayCall me seqs) ks) s) me)"
    by (rule set_mono_prefix) (rule run_completed_prefix)
  with l show ?thesis by (auto simp: writtenFor_def list_ex_iff run_replays_storyLocations)
qed

lemma replays_written:
  assumes "j \<le> length ks" and "\<And>i. i < j \<Longrightarrow> replaySucceeds hp me seqs ks w i"
  shows "list_all (\<lambda>k. writtenFor (run hp (map (replayCall me seqs) (take j ks)) (backend w)) me
                           (''location_'' @ toText k)) (take j ks)"
  using assms
proof (induction ks arbitrary: j w)
  case Nil
  then show ?case by simp
next
  case (Cons k ks)
  show ?case
  proof (cases j)
    case 0
    then show ?thesis by simp
  next
    case (Suc j')
    have "replaySucceeds hp me seqs (k # ks) w 0" using Cons.prems(2) [of 0] Suc by simp
    from first_success [OF this] obtain p where
      u: "updateProgress hp (backend w) me (''location_'' @ toText k) seqs
          = Inr (p, exec hp (replayCall me seqs k) (backend w))"
      by blast
    let ?b = "exec hp (replayCall me seqs k) (backend w)"
    let ?w1 = "w\<lparr>backend := ?b, network := tl (network w)\<rparr>"
    from updateProgress_success_record [OF u]
    have "writtenFor ?b me (''location_'' @ toText k)"
      by (auto simp: writtenFor_def completedOf_def list_ex_iff)
    then have h: "writtenFor (run hp (map (replayCall me seqs) (take j' ks)) ?b) me (''location_'' @ toText k)"
      by (rule writtenFor_run_replays)
    have "list_all (\<lambda>k. writtenFor (run hp (map (replayCall me seqs) (take j' ks)) (backend ?w1)) me
                           (''location_'' @ toText k)) (take j' ks)"
    proof (rule Cons.IH)
      show "j' \<le> length ks" using Cons.prems(1) Suc by simp
    next
      fix i assume "i < j'"
      then show "replaySucceeds hp me seqs ks ?w1 i"
        using Cons.prems(2) [of "Suc i"] Suc by (simp add: replaySucceeds_Suc)
    qed
    with h show ?thesis using Suc by simp
  qed
qed

lemma writtenFor_preserved:
  assumes "writtenFor (backend w) me lid"
    and "storyLocations (backend w') = storyLocations (backend w)" and "grows w w'"
  shows "writtenFor (backend w') me lid"
proof -
  from assms(1) obtain loc where l: "storyLocations (backend w) lid = Some loc"
    "sequenceNumber loc \<in> set (completedOf (backend w) me)"
    by (auto simp: writtenFor_def list_ex_iff split: option.splits)
  from grows_subset [OF assms(3), of me] l(2)
  have "sequenceNumber loc \<in> set (completedOf (backend w') me)" by blast
  with l(1) assms(2) show ?thesis by (simp add: writtenFor_def list_ex_iff)
qed

lemma set_newLocationsOf:
  "set (newLocationsOf cached server) = set (completedLocations cached) - set (completedLocations server)"
  by (auto simp: newLocationsOf_def list_ex_iff)

lemma hasUnsynced_markAsSynced: "\<not> hasUnsyncedProgress (markAsSynced w)"
  by (simp add: hasUnsyncedProgress_def markAsSynced_def split: option.splits)

lemma hasUnsynced_cong: "localStorage w' = localStorage w \<Longrightarrow> hasUnsyncedProgress w' = hasUnsyncedProgress w"
  by (simp add: hasUnsyncedProgress_def)

lemma load_cong:
  "localStorage w' = localStorage w \<Longrightarrow> loadProgressFromLocalStorage w' = loadProgressFromLocalStorage w"
  by (simp add: loadProgressFromLocalStorage_def)

lemma sync_noop: "\<not> hasUnsyncedProgress w \<Longrightarrow> syncUnsyncedProgress hp me w = (True, w)"
  by (simp add: syncUnsyncedProgress_def)

lemma actor_getUserProgress_world:
  "snd (actor_getUserProgress hp me w) = w\<lparr>network := tl (network w)\<rparr>"
  by (simp add: actor_getUserProgress_def split: delivery.splits sum.splits)

lemma sync_read_fails:
  assumes "hasUnsyncedProgress w" and "loadProgressFromLocalStorage w = Some cached"
    and "actor_getUserProgress hp me w = (Inl e, w1)"
  shows "syncUnsyncedProgress hp me w = (False, w1)"
  using assms by (simp add: syncUnsyncedProgress_def)

lemma sync_read_succeeds:
  assumes "hasUnsyncedProgress w" and "loadProgressFromLocalStorage w = Some cached"
    and "actor_getUserProgress hp me w = (Inr server, w1)"
  shows "syncUnsyncedProgress hp me w
         = (case syncLoop hp me (currentSequences cached) (newLocationsOf cached server) w1 of
              (False, w2) \<Rightarrow> (False, w2) | (True, w2) \<Rightarrow> (True, markAsSynced w2))"
  using assms by (simp add: syncUnsyncedProgress_def Let_def)

lemma sync_exact:
  assumes "hasUnsyncedProgress w" and "loadProgressFromLocalStorage w = Some cached"
    and "actor_getUserProgress hp me w = (Inr server, w1)"
    and "j \<le> length (newLocationsOf cached server)"
    and "\<And>i. i < j \<Longrightarrow> replaySucceeds hp me (currentSequences cached) (newLocationsOf cached server) w1 i"
    and "\<not> replaySucceeds hp me (currentSequences cached) (newLocationsOf cached server) w1 j"
  shows "syncUnsyncedProgress hp me w
         = (j = length (newLocationsOf cached server),
            if j = length (newLocationsOf cached server)
            then markAsSynced (afterReplays hp me (currentSequences cached) (newLocationsOf cached server) j w1)
            else afterReplays hp me (currentSequences cached) (newLocationsOf cached server) j w1)"
proof -
  have e: "syncLoop hp me (currentSequences cached) (newLocationsOf cached server) w1
           = (j = length (newLocationsOf cached server),
              afterReplays hp me (currentSequences cached) (newLocationsOf cached server) j w1)"
    using assms(4,5,6) by (rule syncLoop_exact)
  show ?thesis
    by (cases "j = length (newLocationsOf cached server)")
       (simp_all add: sync_read_succeeds [OF assms(1,2,3)] e)
qed

lemma afterReplays_frame:
  "localStorage (afterReplays hp me seqs ks j w) = localStorage w"
  "queryData (afterReplays hp me seqs ks j w) = queryData w"
  "clock (afterReplays hp me seqs ks j w) = clock w"
  "thereafter (afterReplays hp me seqs ks j w) = thereafter w"
  "backend (afterReplays hp me seqs ks j w) = run hp (map (replayCall me seqs) (take j ks)) (backend w)"
  by (simp_all add: afterReplays_def)

lemma markAsSynced_backend: "backend (markAsSynced w) = backend w"
  by (simp add: markAsSynced_def split: option.splits)

text \<open>
  C8. \<open>syncUnsyncedProgress\<close> returns at once, changing nothing, when the cache holds no
  unsynced entry. With an unsynced, readable entry it reads the canister with one call. If the
  read fails it reports failure and changes nothing else. Otherwise the locations to replay
  are those of the cached list that the answer lacks, in the order of the cached list, and
  the writes are replayed one call after the other until one fails: with \<open>j\<close> the number of
  replays that succeed before the first that does not, the canister ends in the state reached
  by the writes of the first \<open>j\<close> locations, each of them is then completed there, and the
  calls made are the read, these \<open>j\<close> writes and, when a location is left, the one that failed.
  When all have succeeded, success is reported, the entry differs from before only in being
  marked synced, and a further reconciliation is a no-op. When one has failed, failure is
  reported and the entry is as before, still unsynced. Query data and clock are never touched.
\<close>

theorem syncUnsyncedProgress_behaviour:
  "(\<not> hasUnsyncedProgress w \<longrightarrow> syncUnsyncedProgress hp me w = (True, w))
   \<and> (hasUnsyncedProgress w \<and> loadProgressFromLocalStorage w = Some cached
        \<and> actor_getUserProgress hp me w = (Inl e, w1)
      \<longrightarrow> syncUnsyncedProgress hp me w = (False, w1) \<and> w1 = w\<lparr>network := tl (network w)\<rparr>)
   \<and> (hasUnsyncedProgress w \<and> loadProgressFromLocalStorage w = Some cached
        \<and> actor_getUserProgress hp me w = (Inr server, w1)
      \<longrightarrow> w1 = w\<lparr>network := tl (network w)\<rparr>
          \<and> set (newLocationsOf cached server)
            = set (completedLocations cached) - set (completedLocations server)
          \<and> (\<exists>j\<le>length (newLocationsOf cached server).
                (\<forall>i<j. replaySucceeds hp me (currentSequences cached) (newLocationsOf cached server) w1 i)
                \<and> \<not> replaySucceeds hp me (currentSequences cached) (newLocationsOf cached server) w1 j))
   \<and> (hasUnsyncedProgress w \<and> loadProgressFromLocalStorage w = Some cached
        \<and> actor_getUserProgress hp me w = (Inr server, w1)
        \<and> j \<le> length (newLocationsOf cached server)
        \<and> (\<forall>i<j. replaySucceeds hp me (currentSequences cached) (newLocationsOf cached server) w1 i)
        \<and> \<not> replaySucceeds hp me (currentSequences cached) (newLocationsOf cached server) w1 j
      \<longrightarrow> syncUnsyncedProgress hp me w
          = (j = length (newLocationsOf cached server),
             if j = length (newLocationsOf cached server)
             then markAsSynced
                    (afterReplays hp me (currentSequences cached) (newLocationsOf cached server) j w1)
             else afterReplays hp me (currentSequences cached) (newLocationsOf cached server) j w1)
          \<and> list_all (\<lambda>k. writtenFor (backend (snd (syncUnsyncedProgress hp me w))) me
                               (''location_'' @ toText k))
              (take j (newLocationsOf cached server))
          \<and> (if j = length (newLocationsOf cached server)
             then syncUnsyncedProgress hp me (snd (syncUnsyncedProgress hp me w))
                  = (True, snd (syncUnsyncedProgress hp me w))
             else localStorage (snd (syncUnsyncedProgress hp me w)) = localStorage w))"
proof (intro conjI impI)
  assume "\<not> hasUnsyncedProgress w"
  then show "syncUnsyncedProgress hp me w = (True, w)" by (rule sync_noop)
next
  assume h: "hasUnsyncedProgress w \<and> loadProgressFromLocalStorage w = Some cached
             \<and> actor_getUserProgress hp me w = (Inl e, w1)"
  then show "syncUnsyncedProgress hp me w = (False, w1)" using sync_read_fails by blast
  show "w1 = w\<lparr>network := tl (network w)\<rparr>"
    using h actor_getUserProgress_world [of hp me w] by simp
next
  assume h: "hasUnsyncedProgress w \<and> loadProgressFromLocalStorage w = Some cached
             \<and> actor_getUserProgress hp me w = (Inr server, w1)"
  show "w1 = w\<lparr>network := tl (network w)\<rparr>"
    using h actor_getUserProgress_world [of hp me w] by simp
  show "set (newLocationsOf cached server)
        = set (completedLocations cached) - set (completedLocations server)"
    by (rule set_newLocationsOf)
  show "\<exists>j\<le>length (newLocationsOf cached server).
          (\<forall>i<j. replaySucceeds hp me (currentSequences cached) (newLocationsOf cached server) w1 i)
          \<and> \<not> replaySucceeds hp me (currentSequences cached) (newLocationsOf cached server) w1 j"
    by (rule first_failure_exists)
next
  let ?new = "newLocationsOf cached server"
  let ?seqs = "currentSequences cached"
  assume h: "hasUnsyncedProgress w \<and> loadProgressFromLocalStorage w = Some cached
        \<and> actor_getUserProgress hp me w = (Inr server, w1)
        \<and> j \<le> length ?new
        \<and> (\<forall>i<j. replaySucceeds hp me ?seqs ?new w1 i)
        \<and> \<not> replaySucceeds hp me ?seqs ?new w1 j"
  then have u: "hasUnsyncedProgress w" and l: "loadProgressFromLocalStorage w = Some cached"
    and r: "actor_getUserProgress hp me w = (Inr server, w1)" and j: "j \<le> length ?new"
    and s: "\<And>i. i < j \<Longrightarrow> replaySucceeds hp me ?seqs ?new w1 i"
    and f: "\<not> replaySucceeds hp me ?seqs ?new w1 j"
    by simp_all
  have w1: "w1 = w\<lparr>network := tl (network w)\<rparr>"
    using r actor_getUserProgress_world [of hp me w] by simp
  note eq = sync_exact [OF u l r j s f]
  show "syncUnsyncedProgress hp me w
        = (j = length ?new,
           if j = length ?new then markAsSynced (afterReplays hp me ?seqs ?new j w1)
           else afterReplays hp me ?seqs ?new j w1)"
    by (rule eq)
  have b: "backend (snd (syncUnsyncedProgress hp me w))
           = run hp (map (replayCall me ?seqs) (take j ?new)) (backend w1)"
    by (simp add: eq markAsSynced_backend afterReplays_frame)
  show "list_all (\<lambda>k. writtenFor (backend (snd (syncUnsyncedProgress hp me w))) me
                          (''location_'' @ toText k)) (take j ?new)"
    using replays_written [OF j s] by (simp add: b)
  show "if j = length ?new
        then syncUnsyncedProgress hp me (snd (syncUnsyncedProgress hp me w))
             = (True, snd (syncUnsyncedProgress hp me w))
        else localStorage (snd (syncUnsyncedProgress hp me w)) = localStorage w"
  proof (cases "j = length ?new")
    case True
    have "\<not> hasUnsyncedProgress (snd (syncUnsyncedProgress hp me w))"
      using True by (simp add: eq hasUnsynced_markAsSynced)
    then show ?thesis using True sync_noop by simp
  next
    case False
    then show ?thesis by (simp add: eq afterReplays_frame w1)
  qed
qed

lemma BigInt_examples: "BigInt ''1'' = Some 1" "BigInt ''2'' = Some 2" "BigInt ''3'' = Some 3"
  by (simp_all add: BigInt_def isDigit_def digitVal_def)

lemma load_queuedWorld: "loadProgressFromLocalStorage (queuedWorld b net) = Some cachedTwo"
  by (simp add: loadProgressFromLocalStorage_def queuedWorld_def queuedEntry_def bigIntOr_def
                BigInt_examples cachedTwo_def)

lemma hasUnsynced_queuedWorld: "hasUnsyncedProgress (queuedWorld b net)"
  by (simp add: hasUnsyncedProgress_def queuedWorld_def queuedEntry_def)

lemma read_fails_queuedWorld:
  "actor_getUserProgress everyone ''alice'' (queuedWorld b (Failed m # net)) = (Inl m, queuedWorld b net)"
  by (simp add: actor_getUserProgress_def nextOutcome_def queuedWorld_def)

lemma read_fresh_queuedWorld:
  "actor_getUserProgress everyone ''alice'' (queuedWorld (initial trail) [])
   = (Inr initialProgress, queuedWorld (initial trail) [])"
  "actor_getUserProgress everyone ''alice'' (queuedWorld (initial trail) (Delivered # net))
   = (Inr initialProgress, queuedWorld (initial trail) net)"
  by (simp_all add: actor_getUserProgress_def nextOutcome_def queuedWorld_def getUserProgress_def
                    everyone_def ensureProgressInitialized_def initial_def)

lemma read_first_queuedWorld:
  "actor_getUserProgress everyone ''alice'' (queuedWorld aliceFirst [])
   = (Inr afterFirst, queuedWorld aliceFirst [])"
  by (simp add: actor_getUserProgress_def nextOutcome_def queuedWorld_def getUserProgress_def
                everyone_def ensureProgressInitialized_def aliceFirst_def)

lemma toText_1: "toText 1 = ''1''" "toText (Suc 0) = ''1''"
  by (simp_all add: toText_small digit_simps)

lemma toText_2: "toText 2 = ''2''"
  by (simp add: toText_small digit_simps)

lemma newLocations_fresh: "newLocationsOf cachedTwo initialProgress = [1, 2]"
  by (simp add: newLocationsOf_def cachedTwo_def initialProgress_def)

lemma newLocations_queued: "newLocationsOf cachedTwo afterFirst = [2]"
  by (simp add: newLocationsOf_def cachedTwo_def afterFirst_def)

lemma currentSequences_cachedTwo: "currentSequences cachedTwo = []"
  by (simp add: cachedTwo_def)

lemma second_write:
  "updateProgress everyone aliceFirst ''alice'' ''location_2'' [] = Inr (cachedTwo, aliceBoth)"
  by (simp add: updateProgress_def everyone_def aliceFirst_def aliceBoth_def trail_simps
                ensureProgressInitialized_def isLocationCompleted_iff afterFirst_def
                sequenceNumber_location2 cachedTwo_def Let_def)

lemma run_replay_first:
  "run everyone [replayCall ''alice'' [] 1] (initial trail) = aliceFirst"
  using first_write by (simp add: replayCall_def toText_1 aliceFirst_def)

lemma run_replay_both:
  "run everyone [replayCall ''alice'' [] 1, replayCall ''alice'' [] 2] (initial trail) = aliceBoth"
  using first_write second_write by (simp add: replayCall_def toText_1 toText_2 aliceFirst_def)

lemma replays_fresh:
  "replaySucceeds everyone ''alice'' [] [1, 2] (queuedWorld (initial trail) []) 0"
  "replaySucceeds everyone ''alice'' [] [1, 2] (queuedWorld (initial trail) []) 1"
  "\<not> replaySucceeds everyone ''alice'' [] [1, 2] (queuedWorld (initial trail) []) 2"
proof -
  have b: "backend (queuedWorld (initial trail) []) = initial trail" by (simp add: queuedWorld_def)
  have o: "\<And>i. outcomeAt (queuedWorld (initial trail) []) i = Delivered"
    by (simp add: outcomeAt_def queuedWorld_def)
  show "replaySucceeds everyone ''alice'' [] [1, 2] (queuedWorld (initial trail) []) 0"
    by (simp add: replaySucceeds_def b o toText_1 first_write)
  show "replaySucceeds everyone ''alice'' [] [1, 2] (queuedWorld (initial trail) []) 1"
    unfolding replaySucceeds_def b o using run_replay_first by (simp add: toText_2 second_write)
  show "\<not> replaySucceeds everyone ''alice'' [] [1, 2] (queuedWorld (initial trail) []) 2"
    by (simp add: replaySucceeds_def)
qed

lemma replays_interrupted:
  "replaySucceeds everyone ''alice'' [] [1, 2]
     (queuedWorld (initial trail) [Delivered, Failed ''Failed to fetch'']) 0"
  "\<not> replaySucceeds everyone ''alice'' [] [1, 2]
       (queuedWorld (initial trail) [Delivered, Failed ''Failed to fetch'']) 1"
proof -
  let ?w = "queuedWorld (initial trail) [Delivered, Failed ''Failed to fetch'']"
  have b: "backend ?w = initial trail" by (simp add: queuedWorld_def)
  have o: "outcomeAt ?w 0 = Delivered" "outcomeAt ?w (Suc 0) = Failed ''Failed to fetch''"
    by (simp_all add: outcomeAt_def queuedWorld_def)
  show "replaySucceeds everyone ''alice'' [] [1, 2] ?w 0"
    by (simp add: replaySucceeds_def b o toText_1 first_write)
  show "\<not> replaySucceeds everyone ''alice'' [] [1, 2] ?w 1"
    by (simp add: replaySucceeds_def o)
qed

lemma afterReplays_fresh:
  "markAsSynced (afterReplays everyone ''alice'' [] [1, 2] 2 (queuedWorld (initial trail) []))
   = reconciledWorld"
  using run_replay_both
  by (simp add: afterReplays_def markAsSynced_def queuedWorld_def reconciledWorld_def)

lemma afterReplays_interrupted:
  "afterReplays everyone ''alice'' [] [1, 2] 1
     (queuedWorld (initial trail) [Delivered, Failed ''Failed to fetch''])
   = queuedWorld aliceFirst []"
  using run_replay_first
  by (simp add: afterReplays_def queuedWorld_def)

lemma writtenFor_aliceBoth:
  "writtenFor aliceBoth ''alice'' ''location_1''" "writtenFor aliceBoth ''alice'' ''location_2''"
  by (simp_all add: writtenFor_def aliceBoth_def trail_simps completedOf_def cachedTwo_def
                    sequenceNumber_location1 sequenceNumber_location2)

theorem syncUnsyncedProgress_behaviour_witness:
  "\<not> hasUnsyncedProgress emptyWorld
   \<and> syncUnsyncedProgress everyone ''alice'' emptyWorld = (True, emptyWorld)
   \<and> hasUnsyncedProgress (queuedWorld aliceFirst [Failed ''Failed to fetch''])
   \<and> loadProgressFromLocalStorage (queuedWorld aliceFirst [Failed ''Failed to fetch'']) = Some cachedTwo
   \<and> actor_getUserProgress everyone ''alice'' (queuedWorld aliceFirst [Failed ''Failed to fetch''])
     = (Inl ''Failed to fetch'', queuedWorld aliceFirst [])
   \<and> syncUnsyncedProgress everyone ''alice'' (queuedWorld aliceFirst [Failed ''Failed to fetch''])
     = (False, queuedWorld aliceFirst [])
   \<and> hasUnsyncedProgress (queuedWorld (initial trail) [])
   \<and> loadProgressFromLocalStorage (queuedWorld (initial trail) []) = Some cachedTwo
   \<and> actor_getUserProgress everyone ''alice'' (queuedWorld (initial trail) [])
     = (Inr initialProgress, queuedWorld (initial trail) [])
   \<and> newLocationsOf cachedTwo initialProgress = [1, 2]
   \<and> replaySucceeds everyone ''alice'' [] [1, 2] (queuedWorld (initial trail) []) 0
   \<and> replaySucceeds everyone ''alice'' [] [1, 2] (queuedWorld (initial trail) []) 1
   \<and> \<not> replaySucceeds everyone ''alice'' [] [1, 2] (queuedWorld (initial trail) []) 2
   \<and> syncUnsyncedProgress everyone ''alice'' (queuedWorld (initial trail) []) = (True, reconciledWorld)
   \<and> writtenFor (backend reconciledWorld) ''alice'' ''location_1''
   \<and> writtenFor (backend reconciledWorld) ''alice'' ''location_2''
   \<and> syncUnsyncedProgress everyone ''alice'' reconciledWorld = (True, reconciledWorld)
   \<and> actor_getUserProgress everyone ''alice''
       (queuedWorld (initial trail) [Delivered, Delivered, Failed ''Failed to fetch''])
     = (Inr initialProgress, queuedWorld (initial trail) [Delivered, Failed ''Failed to fetch''])
   \<and> replaySucceeds everyone ''alice'' [] [1, 2]
         (queuedWorld (initial trail) [Delivered, Failed ''Failed to fetch'']) 0
   \<and> \<not> replaySucceeds everyone ''alice'' [] [1, 2]
         (queuedWorld (initial trail) [Delivered, Failed ''Failed to fetch'']) 1
   \<and> syncUnsyncedProgress everyone ''alice''
       (queuedWorld (initial trail) [Delivered, Delivered, Failed ''Failed to fetch''])
     = (False, queuedWorld aliceFirst [])
   \<and> writtenFor (backend (queuedWorld aliceFirst [])) ''alice'' ''location_1''
   \<and> hasUnsyncedProgress (queuedWorld aliceFirst [])"
proof -
  let ?down = "queuedWorld aliceFirst [Failed ''Failed to fetch'']"
  let ?fresh = "queuedWorld (initial trail) []"
  let ?cut = "queuedWorld (initial trail) [Delivered, Delivered, Failed ''Failed to fetch'']"
  let ?cut1 = "queuedWorld (initial trail) [Delivered, Failed ''Failed to fetch'']"
  have n: "\<not> hasUnsyncedProgress emptyWorld" by (simp add: hasUnsyncedProgress_def emptyWorld_def)
  have a1: "syncUnsyncedProgress everyone ''alice'' emptyWorld = (True, emptyWorld)"
    using syncUnsyncedProgress_behaviour [where w = emptyWorld and hp = everyone and me = "''alice''",
            THEN conjunct1] n
    by simp
  have r2: "actor_getUserProgress everyone ''alice'' ?down = (Inl ''Failed to fetch'', queuedWorld aliceFirst [])"
    by (rule read_fails_queuedWorld)
  have a2: "syncUnsyncedProgress everyone ''alice'' ?down = (False, queuedWorld aliceFirst [])"
    using syncUnsyncedProgress_behaviour
            [where w = ?down and hp = everyone and me = "''alice''" and cached = cachedTwo
               and e = "''Failed to fetch''" and ?w1.0 = "queuedWorld aliceFirst []",
             THEN conjunct2, THEN conjunct1]
          hasUnsynced_queuedWorld [of aliceFirst] load_queuedWorld [of aliceFirst] r2
    by simp
  have r3: "actor_getUserProgress everyone ''alice'' ?fresh = (Inr initialProgress, ?fresh)"
    by (rule read_fresh_queuedWorld(1))
  have s3: "\<forall>i<2. replaySucceeds everyone ''alice'' [] [1, 2] ?fresh i"
    using replays_fresh(1,2) by (simp add: numeral_2_eq_2 less_Suc_eq)
  note t3 = syncUnsyncedProgress_behaviour
              [where w = ?fresh and hp = everyone and me = "''alice''" and cached = cachedTwo
                 and server = initialProgress and ?w1.0 = ?fresh and j = 2,
               THEN conjunct2, THEN conjunct2, THEN conjunct2,
               unfolded newLocations_fresh currentSequences_cachedTwo]
  have h3: "hasUnsyncedProgress ?fresh \<and> loadProgressFromLocalStorage ?fresh = Some cachedTwo
            \<and> actor_getUserProgress everyone ''alice'' ?fresh = (Inr initialProgress, ?fresh)
            \<and> 2 \<le> length [1::nat, 2]
            \<and> (\<forall>i<2. replaySucceeds everyone ''alice'' [] [1, 2] ?fresh i)
            \<and> \<not> replaySucceeds everyone ''alice'' [] [1, 2] ?fresh 2"
    by (intro conjI hasUnsynced_queuedWorld load_queuedWorld r3 s3 replays_fresh(3)) simp
  note c3 = mp [OF t3 h3]
  have a3: "syncUnsyncedProgress everyone ''alice'' ?fresh = (True, reconciledWorld)"
    using c3 [THEN conjunct1] by (simp add: afterReplays_fresh del: One_nat_def)
  have w3: "writtenFor (backend reconciledWorld) ''alice'' ''location_1''"
       "writtenFor (backend reconciledWorld) ''alice'' ''location_2''"
    using c3 [THEN conjunct2, THEN conjunct1] unfolding a3 by (simp_all add: toText_1 toText_2)
  have i3: "syncUnsyncedProgress everyone ''alice'' reconciledWorld = (True, reconciledWorld)"
    using c3 [THEN conjunct2, THEN conjunct2] unfolding a3 by simp
  have r4: "actor_getUserProgress everyone ''alice'' ?cut = (Inr initialProgress, ?cut1)"
    by (rule read_fresh_queuedWorld(2))
  have s4: "\<forall>i<1. replaySucceeds everyone ''alice'' [] [1, 2] ?cut1 i"
    using replays_interrupted(1) by simp
  note t4 = syncUnsyncedProgress_behaviour
              [where w = ?cut and hp = everyone and me = "''alice''" and cached = cachedTwo
                 and server = initialProgress and ?w1.0 = ?cut1 and j = 1,
               THEN conjunct2, THEN conjunct2, THEN conjunct2,
               unfolded newLocations_fresh currentSequences_cachedTwo]
  have h4: "hasUnsyncedProgress ?cut \<and> loadProgressFromLocalStorage ?cut = Some cachedTwo
            \<and> actor_getUserProgress everyone ''alice'' ?cut = (Inr initialProgress, ?cut1)
            \<and> 1 \<le> length [1::nat, 2]
            \<and> (\<forall>i<1. replaySucceeds everyone ''alice'' [] [1, 2] ?cut1 i)
            \<and> \<not> replaySucceeds everyone ''alice'' [] [1, 2] ?cut1 1"
    by (intro conjI hasUnsynced_queuedWorld load_queuedWorld r4 s4 replays_interrupted(2)) simp
  note c4 = mp [OF t4 h4]
  have a4: "syncUnsyncedProgress everyone ''alice'' ?cut = (False, queuedWorld aliceFirst [])"
    using c4 [THEN conjunct1] by (simp add: afterReplays_interrupted del: One_nat_def)
  have w4: "writtenFor (backend (queuedWorld aliceFirst [])) ''alice'' ''location_1''"
    using c4 [THEN conjunct2, THEN conjunct1] unfolding a4 by (simp add: toText_1)
  show ?thesis
    by (intro conjI n a1 hasUnsynced_queuedWorld load_queuedWorld r2 a2 r3 newLocations_fresh
              replays_fresh a3 w3 i3 r4 replays_interrupted a4 w4)
qed

section \<open>Completion while the network is down\<close>

lemma thereafter_frame:
  "thereafter (sleep d w) = thereafter w"
  "thereafter (saveProgressToLocalStorage p w) = thereafter w"
  "thereafter (markProgressAsUnsynced w) = thereafter w"
  "thereafter (markAsSynced w) = thereafter w"
  "thereafter (snd (onMutate lid w)) = thereafter w"
  "thereafter (onError m prev w) = thereafter w"
  by (simp_all add: sleep_def saveProgressToLocalStorage_def markProgressAsUnsynced_def
                    markAsSynced_def Let_def onMutate_def onError_def split: option.splits)

lemma saveLocally_thereafter: "thereafter (saveLocallyForLaterSync lid ws w) = thereafter w"
  by (simp add: saveLocallyForLaterSync_def Let_def thereafter_frame)

lemma networkDown_cong:
  "network w' = network w \<Longrightarrow> thereafter w' = thereafter w \<Longrightarrow> networkDown w' = networkDown w"
  by (simp add: networkDown_def)

lemma networkDown_tl: "networkDown w \<Longrightarrow> networkDown (w\<lparr>network := tl (network w)\<rparr>)"
  by (cases "network w") (simp_all add: networkDown_def)

lemma networkDown_outcome:
  assumes "networkDown w"
  obtains m where "nextOutcome w = Failed m" "isNetworkError (if m = [] then ''Error'' else m)"
proof -
  have "recognisedFailure (nextOutcome w)"
    using assms by (cases "network w") (simp_all add: networkDown_def nextOutcome_def)
  then show ?thesis
    using that by (cases "nextOutcome w") (simp_all add: recognisedFailure_def)
qed

lemma write_down:
  assumes "networkDown w"
  obtains m where
    "actor_updateProgress hp me lid ws w = (Inl m, w\<lparr>network := tl (network w)\<rparr>)"
    "isNetworkError (if m = [] then ''Error'' else m)"
proof -
  from networkDown_outcome [OF assms] obtain m where
    m: "nextOutcome w = Failed m" "isNetworkError (if m = [] then ''Error'' else m)"
    by blast
  show ?thesis using that [of m] m by (simp add: actor_updateProgress_def)
qed

lemma read_down:
  assumes "networkDown w"
  obtains m where "actor_getUserProgress hp me w = (Inl m, w\<lparr>network := tl (network w)\<rparr>)"
proof -
  from networkDown_outcome [OF assms] obtain m where m: "nextOutcome w = Failed m" by blast
  show ?thesis using that [of m] m by (simp add: actor_getUserProgress_def)
qed

lemma mutationFn_down:
  assumes "networkDown w"
  shows "mutationFn hp me lid ws w
         = (Inl networkErrorMessage, saveLocallyForLaterSync lid ws (w\<lparr>network := tl (network w)\<rparr>))"
proof -
  from write_down [OF assms] obtain m where
    "actor_updateProgress hp me lid ws w = (Inl m, w\<lparr>network := tl (network w)\<rparr>)"
    "isNetworkError (if m = [] then ''Error'' else m)"
    by blast
  then show ?thesis
    by (simp add: mutationFn_def catchUpdateError_def networkErrorMessage_def)
qed

lemma cachedOrDefault_cong: "localStorage w' = localStorage w \<Longrightarrow> cachedOrDefault w' = cachedOrDefault w"
  using load_cong [of w' w] by (simp add: cachedOrDefault_def)

lemma keptRecord_cong:
  "localStorage w' = localStorage w \<Longrightarrow> keptRecord lid ws w' = keptRecord lid ws w"
  using cachedOrDefault_cong [of w' w] by (simp add: keptRecord_def)

lemma keptRecord_member: "locationNumberOf lid \<in> set (completedLocations (keptRecord lid ws w))"
  by (simp add: keptRecord_def queuedProgress_def)

lemma keptRecord_loaded:
  assumes "loadProgressFromLocalStorage s = Some c"
    and "locationNumberOf lid \<in> set (completedLocations c)"
  shows "keptRecord lid ws s = c"
  using assms by (simp add: keptRecord_def cachedOrDefault_def)

lemma saveLocally_present:
  "locationNumberOf lid \<in> set (completedLocations (cachedOrDefault w))
   \<Longrightarrow> saveLocallyForLaterSync lid ws w = w"
  by (simp add: saveLocallyForLaterSync_def cachedOrDefault_def Let_def List.member_iff)

lemma saveLocally_absent:
  "locationNumberOf lid \<notin> set (completedLocations (cachedOrDefault w))
   \<Longrightarrow> saveLocallyForLaterSync lid ws w
       = markProgressAsUnsynced
           (saveProgressToLocalStorage (queuedProgress (locationNumberOf lid) ws (cachedOrDefault w)) w)"
  by (simp add: saveLocallyForLaterSync_def cachedOrDefault_def Let_def List.member_iff queuedProgress_def)

lemma load_saveLocally:
  "loadProgressFromLocalStorage (saveLocallyForLaterSync lid ws w) = Some (keptRecord lid ws w)"
proof (cases "locationNumberOf lid \<in> set (completedLocations (cachedOrDefault w))")
  case True
  then have "loadProgressFromLocalStorage w = Some (cachedOrDefault w)"
    by (cases "loadProgressFromLocalStorage w") (simp_all add: cachedOrDefault_def defaultProgress_def)
  with True show ?thesis by (simp add: saveLocally_present keptRecord_def)
next
  case False
  then show ?thesis by (simp add: saveLocally_absent keptRecord_def load_mark_save)
qed

lemma load_markUnsynced:
  "loadProgressFromLocalStorage (markProgressAsUnsynced w) = loadProgressFromLocalStorage w"
  by (simp add: loadProgressFromLocalStorage_def markProgressAsUnsynced_def split: option.splits)

lemma hasUnsynced_markUnsynced:
  "loadProgressFromLocalStorage w = Some c \<Longrightarrow> hasUnsyncedProgress (markProgressAsUnsynced w)"
  by (auto simp: loadProgressFromLocalStorage_def hasUnsyncedProgress_def markProgressAsUnsynced_def
           split: option.splits)

lemma offlineWith_cong:
  assumes "backend s' = backend s" and "network s' = network s" and "thereafter s' = thereafter s"
    and "localStorage s' = localStorage s"
  shows "offlineWith b c s' = offlineWith b c s"
  using networkDown_cong [OF assms(2,3)] load_cong [OF assms(4)] assms(1)
  by (simp add: offlineWith_def)

lemma offlineWith_tl: "offlineWith b c s \<Longrightarrow> offlineWith b c (s\<lparr>network := tl (network s)\<rparr>)"
  using networkDown_tl [of s] load_cong [of "s\<lparr>network := tl (network s)\<rparr>" s]
  by (simp add: offlineWith_def)

lemma mutationFn_down_state:
  assumes "networkDown w"
  shows "fst (mutationFn hp me lid ws w) = Inl networkErrorMessage
         \<and> queryData (snd (mutationFn hp me lid ws w)) = queryData w
         \<and> offlineWith (backend w) (keptRecord lid ws w) (snd (mutationFn hp me lid ws w))"
proof -
  let ?p = "w\<lparr>network := tl (network w)\<rparr>"
  have d: "networkDown (saveLocallyForLaterSync lid ws ?p)"
    using networkDown_cong [of "saveLocallyForLaterSync lid ws ?p" ?p] networkDown_tl [OF assms]
    by (simp add: saveLocally_frame saveLocally_thereafter)
  have k: "keptRecord lid ws ?p = keptRecord lid ws w" by (rule keptRecord_cong) simp
  show ?thesis
    unfolding mutationFn_down [OF assms] fst_conv snd_conv offlineWith_def
    using d k by (simp add: saveLocally_frame load_saveLocally)
qed

lemma mutationAttempts_down:
  assumes "networkDown w"
  shows "fst (mutationAttempts hp me lid ws retry failureCount w) = Inl networkErrorMessage
         \<and> queryData (snd (mutationAttempts hp me lid ws retry failureCount w)) = queryData w
         \<and> offlineWith (backend w) (keptRecord lid ws w)
             (snd (mutationAttempts hp me lid ws retry failureCount w))"
  using assms
proof (induction "retry - failureCount" arbitrary: failureCount w)
  case 0
  then have nl: "\<not> failureCount < retry" by simp
  note M = mutationFn_down_state [OF "0.prems", of hp me lid ws]
  have st: "mutationAttempts hp me lid ws retry failureCount w = mutationFn hp me lid ws w"
    using nl M [THEN conjunct1]
    by (subst mutationAttempts.simps) (simp add: split_beta prod_eq_iff split: sum.splits)
  show ?case unfolding st by (rule M)
next
  case (Suc k)
  then have lt: "failureCount < retry" by simp
  have k: "k = retry - Suc failureCount" using Suc.hyps(2) by simp
  note M = mutationFn_down_state [OF Suc.prems, of hp me lid ws]
  define w1 where "w1 = snd (mutationFn hp me lid ws w)"
  define w2 where "w2 = sleep (min (500 * 2 ^ failureCount) 2000) w1"
  have f1: "fst (mutationFn hp me lid ws w) = Inl networkErrorMessage"
    and q1: "queryData w1 = queryData w"
    and o1: "offlineWith (backend w) (keptRecord lid ws w) w1"
    using M by (simp_all add: w1_def)
  have o2: "offlineWith (backend w) (keptRecord lid ws w) w2"
    using o1 offlineWith_cong [of w2 w1] by (simp add: w2_def sleep_frame thereafter_frame)
  have q2: "queryData w2 = queryData w" by (simp add: w2_def sleep_frame q1)
  have d2: "networkDown w2" and b2: "backend w2 = backend w"
    and l2: "loadProgressFromLocalStorage w2 = Some (keptRecord lid ws w)"
    using o2 by (simp_all add: offlineWith_def)
  have k2: "keptRecord lid ws w2 = keptRecord lid ws w"
    by (rule keptRecord_loaded [OF l2 keptRecord_member])
  note IH = Suc.hyps(1) [OF k d2]
  have st: "mutationAttempts hp me lid ws retry failureCount w
            = mutationAttempts hp me lid ws retry (Suc failureCount) w2"
    using lt f1
    by (subst mutationAttempts.simps) (simp add: split_beta w2_def w1_def split: sum.splits)
  show ?case unfolding st using IH by (simp add: q2 b2 k2)
qed

lemma sync_down:
  assumes "networkDown s"
  shows "snd (syncUnsyncedProgress hp me s) = s
         \<or> snd (syncUnsyncedProgress hp me s) = s\<lparr>network := tl (network s)\<rparr>"
proof -
  from read_down [OF assms] obtain m where
    "actor_getUserProgress hp me s = (Inl m, s\<lparr>network := tl (network s)\<rparr>)"
    by blast
  then show ?thesis by (simp add: syncUnsyncedProgress_def split: option.splits)
qed

lemma invalidateQueries_down:
  assumes "offlineWith b c s"
  shows "offlineWith b c (invalidateQueries hp me s)
         \<and> hasUnsyncedProgress (invalidateQueries hp me s)
         \<and> queryData (invalidateQueries hp me s) = Some c"
proof -
  define s1 where "s1 = snd (syncUnsyncedProgress hp me s)"
  have d: "networkDown s" using assms by (simp add: offlineWith_def)
  have o1: "offlineWith b c s1"
    using sync_down [OF d, of hp me] assms offlineWith_tl [OF assms] by (auto simp: s1_def)
  then have d1: "networkDown s1" by (simp add: offlineWith_def)
  define s2 where "s2 = s1\<lparr>network := tl (network s1)\<rparr>"
  from read_down [OF d1] obtain m where r: "actor_getUserProgress hp me s1 = (Inl m, s2)"
    unfolding s2_def by blast
  have o2: "offlineWith b c s2" unfolding s2_def by (rule offlineWith_tl [OF o1])
  then have l2: "loadProgressFromLocalStorage s2 = Some c" by (simp add: offlineWith_def)
  have q: "invalidateQueries hp me s = (markProgressAsUnsynced s2)\<lparr>queryData := Some c\<rparr>"
    using r l2 by (simp add: invalidateQueries_def queryFn_def split_beta s1_def [symmetric])
  have o3: "offlineWith b c (markProgressAsUnsynced s2)"
    using o2 networkDown_cong [of "markProgressAsUnsynced s2" s2]
    by (simp add: offlineWith_def markUnsynced_frame thereafter_frame load_markUnsynced)
  have o4: "offlineWith b c ((markProgressAsUnsynced s2)\<lparr>queryData := Some c\<rparr>)"
    using o3 offlineWith_cong [of "(markProgressAsUnsynced s2)\<lparr>queryData := Some c\<rparr>" "markProgressAsUnsynced s2"]
    by simp
  have u: "hasUnsyncedProgress ((markProgressAsUnsynced s2)\<lparr>queryData := Some c\<rparr>)"
    using hasUnsynced_markUnsynced [OF l2]
          hasUnsynced_cong [of "(markProgressAsUnsynced s2)\<lparr>queryData := Some c\<rparr>" "markProgressAsUnsynced s2"]
    by simp
  show ?thesis unfolding q using o4 u by simp
qed

lemma onError_network: "onError networkErrorMessage previous w = w"
  by (simp add: onError_def networkErrorMessage_def)

lemma mutateAsync_down:
  assumes "networkDown w"
  shows "fst (mutateAsync hp me lid ws w) = Inl networkErrorMessage
         \<and> offlineWith (backend w) (keptRecord lid ws w) (snd (mutateAsync hp me lid ws w))
         \<and> hasUnsyncedProgress (snd (mutateAsync hp me lid ws w))
         \<and> queryData (snd (mutateAsync hp me lid ws w)) = Some (keptRecord lid ws w)"
proof -
  define w1 where "w1 = snd (onMutate lid w)"
  have f: "network w1 = network w" "backend w1 = backend w" "localStorage w1 = localStorage w"
    "thereafter w1 = thereafter w"
    by (simp_all add: w1_def onMutate_frame thereafter_frame)
  have d1: "networkDown w1" using networkDown_cong [OF f(1,4)] assms by simp
  have k1: "keptRecord lid ws w1 = keptRecord lid ws w" by (rule keptRecord_cong [OF f(3)])
  define w2 where "w2 = snd (mutationAttempts hp me lid ws 3 0 w1)"
  note A = mutationAttempts_down [OF d1, of hp me lid ws 3 0]
  have a: "fst (mutationAttempts hp me lid ws 3 0 w1) = Inl networkErrorMessage"
    using A by (rule conjunct1)
  have o2: "offlineWith (backend w) (keptRecord lid ws w) w2"
    using A by (simp add: w2_def f(2) k1)
  have eq: "mutateAsync hp me lid ws w = (Inl networkErrorMessage, invalidateQueries hp me w2)"
    using a
    by (simp add: mutateAsync_def split_beta onError_network onSettled_def w1_def [symmetric]
                  w2_def [symmetric])
  show ?thesis
    unfolding eq fst_conv snd_conv using invalidateQueries_down [OF o2, of hp me] by simp
qed

lemma retryLoop_always_failing:
  assumes "I attempt s" and "attempt \<le> Suc maxRetries"
    and step: "\<And>i s. i \<le> maxRetries \<Longrightarrow> I i s \<Longrightarrow>
                 fst (operation s) = Inl e
                 \<and> I (Suc i) (if i < maxRetries then sleepFor (500 * 2 ^ i) (snd (operation s))
                              else snd (operation s))"
    and "attempt \<le> maxRetries \<or> lastError = Some e"
  shows "fst (retryLoop sleepFor operation maxRetries attempt lastError s)
           = \<lparr>success = False, result = None, error = Some e, attempts = maxRetries + 1\<rparr>
         \<and> I (Suc maxRetries) (snd (retryLoop sleepFor operation maxRetries attempt lastError s))"
  using assms(1,2,4)
proof (induction "Suc maxRetries - attempt" arbitrary: attempt lastError s)
  case 0
  then have "\<not> attempt \<le> maxRetries" and "attempt = Suc maxRetries" by simp_all
  with 0 show ?case by (subst (1 2) retryLoop.simps) simp
next
  case (Suc k)
  then have le: "attempt \<le> maxRetries" by simp
  have k: "k = Suc maxRetries - Suc attempt" using Suc.hyps(2) by simp
  define s2 where "s2 = (if attempt < maxRetries then sleepFor (500 * 2 ^ attempt) (snd (operation s))
                         else snd (operation s))"
  from step [OF le Suc.prems(1)] have f: "fst (operation s) = Inl e" and i: "I (Suc attempt) s2"
    by (simp_all add: s2_def)
  have st: "retryLoop sleepFor operation maxRetries attempt lastError s
            = retryLoop sleepFor operation maxRetries (Suc attempt) (Some e) s2"
    using le f by (subst retryLoop.simps) (simp add: split_beta s2_def)
  have le': "Suc attempt \<le> Suc maxRetries" using le by simp
  show ?case unfolding st by (rule Suc.hyps(1) [OF k i le']) simp
qed

lemma includes_networkErrorMessage: "includesStr networkErrorMessage ''Network error''"
  by (simp add: networkErrorMessage_def)

lemma handleComplete_down:
  assumes "networkDown w" and "lid \<noteq> []"
  shows "fst (handleComplete hp me (Some lid) w)
           = (ToastWarning ''Progress saved locally. Will sync when connection is restored.'', True)
         \<and> offlineWith (backend w) (keptRecord lid [] w) (snd (handleComplete hp me (Some lid) w))
         \<and> hasUnsyncedProgress (snd (handleComplete hp me (Some lid) w))
         \<and> queryData (snd (handleComplete hp me (Some lid) w)) = Some (keptRecord lid [] w)"
proof -
  define K where "K = keptRecord lid [] w"
  define I where "I = (\<lambda>(i::nat) s.
       networkDown s \<and> backend s = backend w
       \<and> (if i = 0 then s = w
           else loadProgressFromLocalStorage s = Some K \<and> hasUnsyncedProgress s
                \<and> queryData s = Some K))"
  have I0: "I 0 w" using assms(1) by (simp add: I_def)
  have step: "fst (mutateAsync hp me lid [] s) = Inl networkErrorMessage
              \<and> I (Suc i) (if i < 2 then sleep (500 * 2 ^ i) (snd (mutateAsync hp me lid [] s))
                           else snd (mutateAsync hp me lid [] s))"
    if le: "i \<le> 2" and inv: "I i s" for i s
  proof -
    have d: "networkDown s" and b: "backend s = backend w" using inv by (simp_all add: I_def)
    have k: "keptRecord lid [] s = K"
    proof (cases "i = 0")
      case True
      with inv show ?thesis by (simp add: I_def K_def)
    next
      case False
      with inv have "loadProgressFromLocalStorage s = Some K" by (simp add: I_def)
      then show ?thesis
        by (rule keptRecord_loaded) (simp add: K_def keptRecord_member)
    qed
    note M = mutateAsync_down [OF d, of hp me lid "[]", unfolded k b]
    define s1 where "s1 = snd (mutateAsync hp me lid [] s)"
    have a: "fst (mutateAsync hp me lid [] s) = Inl networkErrorMessage" using M by (rule conjunct1)
    have o: "offlineWith (backend w) K s1" and u: "hasUnsyncedProgress s1"
      and q: "queryData s1 = Some K"
      using M by (simp_all add: s1_def)
    have i1: "I (Suc i) s1" using o u q by (simp add: I_def offlineWith_def)
    have "I (Suc i) (sleep (500 * 2 ^ i) s1)"
      using i1 networkDown_cong [of "sleep (500 * 2 ^ i) s1" s1]
            load_cong [of "sleep (500 * 2 ^ i) s1" s1] hasUnsynced_cong [of "sleep (500 * 2 ^ i) s1" s1]
      by (simp add: I_def sleep_frame thereafter_frame)
    with i1 have "I (Suc i) (if i < 2 then sleep (500 * 2 ^ i) s1 else s1)" by simp
    then have "I (Suc i) (if i < 2 then sleep (500 * 2 ^ i) (snd (mutateAsync hp me lid [] s))
                          else snd (mutateAsync hp me lid [] s))"
      unfolding s1_def .
    with a show ?thesis by (rule conjI)
  qed
  have R: "fst (retryLoop sleep (mutateAsync hp me lid []) 2 0 None w)
             = \<lparr>success = False, result = None, error = Some networkErrorMessage, attempts = 2 + 1\<rparr>
           \<and> I (Suc 2) (snd (retryLoop sleep (mutateAsync hp me lid []) 2 0 None w))"
    by (rule retryLoop_always_failing [where I = I, OF I0]) (use step in simp_all)
  define br where "br = fst (retryWithBackoff sleep (mutateAsync hp me lid []) 2 w)"
  define w3 where "w3 = snd (retryWithBackoff sleep (mutateAsync hp me lid []) 2 w)"
  have br: "br = \<lparr>success = False, result = None, error = Some networkErrorMessage, attempts = 2 + 1\<rparr>"
    and i3: "I (Suc 2) w3"
    using R by (simp_all add: br_def w3_def retryWithBackoff_def)
  have ne: "networkErrorMessage \<noteq> []" by (simp add: networkErrorMessage_def)
  have hc: "handleComplete hp me (Some lid) w
            = ((ToastWarning ''Progress saved locally. Will sync when connection is restored.'', True), w3)"
    using assms(2) br ne includes_networkErrorMessage
    by (simp add: handleComplete_def split_beta Let_def br_def [symmetric] w3_def [symmetric])
  show ?thesis unfolding hc using i3 by (simp add: I_def offlineWith_def K_def)
qed


lemma isNetworkError_failed_to_fetch: "isNetworkError ''Failed to fetch''"
  by (simp add: isNetworkError_def)

lemma locationNumberOf_2: "locationNumberOf ''location_2'' = 2"
  by (simp add: locationNumberOf_def)

lemma networkDown_offlineWorld: "networkDown offlineWorld"
  by (simp add: networkDown_def offlineWorld_def recognisedFailure_def isNetworkError_failed_to_fetch)


lemma keptRecord_offlineWorld: "keptRecord ''location_2'' [] offlineWorld = queuedSecond"
  by (simp add: keptRecord_def cachedOrDefault_def loadProgressFromLocalStorage_def offlineWorld_def
                defaultProgress_def locationNumberOf_2 queuedProgress_def queuedSecond_def)




lemma sleep_strandedWorld: "sleep d (strandedWorld q t) = strandedWorld q (t + d)"
  by (simp add: sleep_def strandedWorld_def)

lemma not_recognised_load_failed: "\<not> recognisedFailure (Failed ''Load failed'')"
  by (simp add: recognisedFailure_def isNetworkError_def)

lemma mutationFn_strandedWorld:
  "mutationFn everyone ''alice'' ''location_2'' [] (strandedWorld q t)
   = (Inl ''Failed to update progress: Load failed'', strandedWorld q t)"
  by (simp add: mutationFn_def actor_updateProgress_def nextOutcome_def strandedWorld_def
                catchUpdateError_def isNetworkError_def)

lemma mutationAttempts_strandedWorld:
  "mutationAttempts everyone ''alice'' ''location_2'' [] 3 0 (strandedWorld q t)
   = (Inl ''Failed to update progress: Load failed'', strandedWorld q (3500 + t))"
  by (simp add: mutationAttempts.simps mutationFn_strandedWorld sleep_strandedWorld)

lemma invalidateQueries_strandedWorld:
  "invalidateQueries everyone ''alice'' (strandedWorld q t) = strandedWorld (Some defaultProgress) t"
  by (simp add: invalidateQueries_def queryFn_def syncUnsyncedProgress_def hasUnsyncedProgress_def
                actor_getUserProgress_def nextOutcome_def loadProgressFromLocalStorage_def
                strandedWorld_def)

lemma onMutate_strandedWorld:
  "\<exists>q'. onMutate lid (strandedWorld q t) = (q, strandedWorld q' t)"
  by (cases q) (auto simp: onMutate_def Let_def strandedWorld_def)

lemma onError_strandedWorld: "\<exists>q'. onError m prev (strandedWorld q t) = strandedWorld q' t"
  by (cases prev) (auto simp: onError_def Let_def strandedWorld_def)

lemma mutateAsync_strandedWorld:
  "mutateAsync everyone ''alice'' ''location_2'' [] (strandedWorld q t)
   = (Inl ''Failed to update progress: Load failed'', strandedWorld (Some defaultProgress) (3500 + t))"
proof -
  obtain q1 where a: "onMutate ''location_2'' (strandedWorld q t) = (q, strandedWorld q1 t)"
    using onMutate_strandedWorld by blast
  obtain q2 where b: "onError ''Failed to update progress: Load failed'' q (strandedWorld q1 (3500 + t))
                      = strandedWorld q2 (3500 + t)"
    using onError_strandedWorld by blast
  show ?thesis
    by (simp add: mutateAsync_def a mutationAttempts_strandedWorld b onSettled_def
                  invalidateQueries_strandedWorld)
qed

lemma handleComplete_strandedWorld:
  "handleComplete everyone ''alice'' (Some ''location_2'') (strandedWorld q 0)
   = ((ToastError ''Failed to save progress after 3 attempts. Please try again.'', False),
      strandedWorld (Some defaultProgress) 12000)"
proof -
  have r0: "retryWithBackoff sleep (mutateAsync everyone ''alice'' ''location_2'' []) 2 (strandedWorld q 0)
            = (\<lparr>success = False, result = None,
                 error = Some ''Failed to update progress: Load failed'', attempts = 3\<rparr>,
               strandedWorld (Some defaultProgress) 12000)"
    by (simp add: retryWithBackoff_def retryLoop.simps mutateAsync_strandedWorld sleep_strandedWorld)
  show ?thesis by (simp add: handleComplete_def r0 toText_3)
qed


section \<open>Reconciliation after the network has come back\<close>

lemma syncLoop_written:
  "fst (syncLoop hp me seqs ks w)
   \<Longrightarrow> list_all (\<lambda>k. writtenFor (backend (snd (syncLoop hp me seqs ks w))) me (''location_'' @ toText k)) ks"
proof (induction ks arbitrary: w)
  case Nil
  show ?case by simp
next
  case (Cons k ks)
  obtain r w1 where c: "actor_updateProgress hp me (''location_'' @ toText k) seqs w = (r, w1)"
    by (cases "actor_updateProgress hp me (''location_'' @ toText k) seqs w")
  from Cons.prems c obtain p where r: "r = Inr p" by (cases r) auto
  have s: "syncLoop hp me seqs (k # ks) w = syncLoop hp me seqs ks w1" using c r by simp
  from c r have u: "updateProgress hp (backend w) me (''location_'' @ toText k) seqs = Inr (p, backend w1)"
    using actor_updateProgress_Inr by blast
  from updateProgress_success_record [OF u]
  have w1: "writtenFor (backend w1) me (''location_'' @ toText k)"
    by (auto simp: writtenFor_def completedOf_def list_ex_iff)
  have f: "storyLocations (backend (snd (syncLoop hp me seqs ks w1))) = storyLocations (backend w1)"
    using syncLoop_frame by blast
  have "writtenFor (backend (snd (syncLoop hp me seqs ks w1))) me (''location_'' @ toText k)"
    by (rule writtenFor_preserved [OF w1 f syncLoop_grows])
  moreover have "list_all (\<lambda>k. writtenFor (backend (snd (syncLoop hp me seqs ks w1))) me (''location_'' @ toText k)) ks"
    using Cons.IH [of w1] Cons.prems s by simp
  ultimately show ?case unfolding s by simp
qed

lemma updateProgress_replayable:
  assumes "hp me user" and "replayable hp s me k"
  shows "\<exists>r s'. updateProgress hp s me (''location_'' @ toText k) ws = Inr (r, s')
           \<and> storyLocations s' = storyLocations s
           \<and> totalLocations (fst (ensureProgressInitialized hp s' me))
             = totalLocations (fst (ensureProgressInitialized hp s me))"
  using assms
  by (auto simp: replayable_def updateProgress_def ensureProgressInitialized_def Let_def
                 initialProgress_def
           split: option.splits)

lemma replayable_preserved:
  assumes "storyLocations s' = storyLocations s"
    and "totalLocations (fst (ensureProgressInitialized hp s' me))
         = totalLocations (fst (ensureProgressInitialized hp s me))"
  shows "replayable hp s' me j = replayable hp s me j"
  unfolding replayable_def assms(1) assms(2) by (rule refl)

lemma nextOutcome_delivering:
  "network w = [] \<Longrightarrow> thereafter w = Delivered \<Longrightarrow> nextOutcome w = Delivered"
  by (simp add: nextOutcome_def)

lemma syncLoop_succeeds:
  assumes "hp me user" and "network w = []" and "thereafter w = Delivered"
    and "list_all (replayable hp (backend w) me) ks"
  shows "fst (syncLoop hp me seqs ks w)"
  using assms(2,3,4)
proof (induction ks arbitrary: w)
  case Nil
  show ?case by simp
next
  case (Cons k ks)
  from Cons.prems(3) have rk: "replayable hp (backend w) me k"
    and rks: "list_all (replayable hp (backend w) me) ks" by simp_all
  from updateProgress_replayable [OF assms(1) rk, of seqs] obtain r s' where
    u: "updateProgress hp (backend w) me (''location_'' @ toText k) seqs = Inr (r, s')"
    and sl: "storyLocations s' = storyLocations (backend w)"
    and tl: "totalLocations (fst (ensureProgressInitialized hp s' me))
             = totalLocations (fst (ensureProgressInitialized hp (backend w) me))"
    by blast
  define w1 where "w1 = w\<lparr>backend := s', network := tl (network w)\<rparr>"
  have a: "actor_updateProgress hp me (''location_'' @ toText k) seqs w = (Inr r, w1)"
    unfolding w1_def
    by (rule actor_updateProgress_success [OF nextOutcome_delivering [OF Cons.prems(1,2)] u])
  have n1: "network w1 = []" "thereafter w1 = Delivered"
    using Cons.prems(1,2) by (simp_all add: w1_def)
  have "replayable hp s' me = replayable hp (backend w) me"
    by (rule ext) (rule replayable_preserved [OF sl tl])
  then have "list_all (replayable hp (backend w1) me) ks"
    using rks by (simp add: w1_def)
  from Cons.IH [OF n1 this] a show ?case by simp
qed

lemma actor_getUserProgress_delivered:
  assumes "network w = []" and "thereafter w = Delivered" and "hp me user"
  shows "\<exists>p. actor_getUserProgress hp me w = (Inr p, w\<lparr>network := []\<rparr>)
             \<and> completedLocations p = completedOf (backend w) me"
  using assms
  by (simp add: actor_getUserProgress_def nextOutcome_def getUserProgress_def
                ensureProgressInitialized_def completedOf_def initialProgress_def
           split: option.splits)

lemma list_all_newLocationsOf:
  "list_all P (completedLocations cached) \<Longrightarrow> list_all P (newLocationsOf cached server)"
  by (simp add: newLocationsOf_def list_all_iff)

lemma replayable_location:
  assumes "replayable hp s me k"
  shows "\<exists>loc. storyLocations s (''location_'' @ toText k) = Some loc \<and> sequenceNumber loc = k"
  using assms by (auto simp: replayable_def split: option.splits)

text \<open>
  C1 (as amended). Let every call that pressing Done for a location makes, the writes and the
  reads of the refetches, fail with a message in which the code finds \<open>network\<close>, \<open>timeout\<close> or
  \<open>fetch\<close>, the location being one the client numbers as the canister does (its id is
  \<open>location_<number>\<close>). Then the cache holds a record with the completed location and is marked
  unsynced, while the canister is as before. If the network then delivers every call, the
  caller has the user permission and the canister can take the replayed write of every cached
  location number, the next reconciliation reports success, marks the cache synced, and the
  location is among the completed locations the canister holds for the identity.
\<close>

theorem completion_survives_network_failure:
  assumes "networkDown w"
    and "lid = ''location_'' @ toText (locationNumberOf lid)"
    and "hp me user"
    and "list_all (replayable hp (backend w) me) (completedLocations (keptRecord lid [] w))"
  shows "loadProgressFromLocalStorage (snd (handleComplete hp me (Some lid) w))
           = Some (keptRecord lid [] w)
         \<and> locationNumberOf lid \<in> set (completedLocations (keptRecord lid [] w))
         \<and> hasUnsyncedProgress (snd (handleComplete hp me (Some lid) w))
         \<and> backend (snd (handleComplete hp me (Some lid) w)) = backend w
         \<and> fst (syncUnsyncedProgress hp me (restored (snd (handleComplete hp me (Some lid) w))))
         \<and> \<not> hasUnsyncedProgress
               (snd (syncUnsyncedProgress hp me (restored (snd (handleComplete hp me (Some lid) w)))))
         \<and> writtenFor
             (backend (snd (syncUnsyncedProgress hp me (restored (snd (handleComplete hp me (Some lid) w))))))
             me lid
         \<and> locationNumberOf lid
             \<in> set (completedOf
                      (backend (snd (syncUnsyncedProgress hp me
                                        (restored (snd (handleComplete hp me (Some lid) w))))))
                      me)"
proof -
  define L where "L = locationNumberOf lid"
  define K where "K = keptRecord lid [] w"
  define w1 where "w1 = snd (handleComplete hp me (Some lid) w)"
  define v where "v = restored w1"
  define w2 where "w2 = snd (syncUnsyncedProgress hp me v)"
  have lid_ne: "lid \<noteq> []" using assms(2) by auto
  note H = handleComplete_down [OF assms(1) lid_ne, of hp me, folded w1_def K_def]
  have o1: "offlineWith (backend w) K w1" using H by (elim conjE)
  have un1: "hasUnsyncedProgress w1" using H by (elim conjE)
  have b1: "backend w1 = backend w" and load1: "loadProgressFromLocalStorage w1 = Some K"
    using o1 by (simp_all add: offlineWith_def)
  have inK: "L \<in> set (completedLocations K)" unfolding L_def K_def by (rule keptRecord_member)
  have fv: "network v = []" "thereafter v = Delivered" "backend v = backend w"
    "localStorage v = localStorage w1"
    by (simp_all add: v_def restored_def b1)
  have loadv: "loadProgressFromLocalStorage v = Some K"
    using load_cong [OF fv(4)] load1 by simp
  have unv: "hasUnsyncedProgress v" using hasUnsynced_cong [OF fv(4)] un1 by simp
  have vv: "v\<lparr>network := []\<rparr> = v" by (simp add: v_def restored_def)
  from actor_getUserProgress_delivered [of v hp me, OF fv(1,2) assms(3)] obtain server where
    rd: "actor_getUserProgress hp me v = (Inr server, v)"
    and sc: "completedLocations server = completedOf (backend v) me"
    unfolding vv by blast
  define new where "new = newLocationsOf K server"
  have eq: "syncUnsyncedProgress hp me v
            = (case syncLoop hp me (currentSequences K) new v of
                 (False, w2) \<Rightarrow> (False, w2) | (True, w2) \<Rightarrow> (True, markAsSynced w2))"
    using sync_read_succeeds [OF unv loadv rd] by (simp add: new_def)
  have rp: "list_all (replayable hp (backend v) me) new"
    unfolding new_def fv(3) by (rule list_all_newLocationsOf) (use assms(4) in \<open>simp add: K_def\<close>)
  have ok: "fst (syncLoop hp me (currentSequences K) new v)"
    by (rule syncLoop_succeeds [of hp me v new, OF assms(3) fv(1,2) rp])
  define w3 where "w3 = snd (syncLoop hp me (currentSequences K) new v)"
  have sy: "syncUnsyncedProgress hp me v = (True, markAsSynced w3)"
    unfolding eq using ok by (simp add: split_beta w3_def)
  have w2: "w2 = markAsSynced w3" by (simp add: w2_def sy)
  have bw2: "backend w2 = backend w3" by (simp add: w2 markAsSynced_frame)
  have g: "grows v w3" unfolding w3_def by (rule syncLoop_grows)
  have sl: "storyLocations (backend w3) = storyLocations (backend w)"
    unfolding w3_def using syncLoop_frame [of hp me "currentSequences K" new v] fv(3) by simp
  have "replayable hp (backend w) me L"
    using assms(4) inK by (simp add: list_all_iff K_def)
  from replayable_location [OF this] obtain loc where
    lo: "storyLocations (backend w) (''location_'' @ toText L) = Some loc" and sq: "sequenceNumber loc = L"
    by blast
  have inL: "L \<in> set (completedOf (backend w3) me)"
  proof (cases "L \<in> set (completedLocations server)")
    case True
    then have "L \<in> set (completedOf (backend v) me)" using sc by simp
    with grows_subset [OF g, of me] show ?thesis by blast
  next
    case False
    then have "L \<in> set new" using inK by (simp add: new_def set_newLocationsOf)
    with syncLoop_written [OF ok] have "writtenFor (backend w3) me (''location_'' @ toText L)"
      by (simp add: list_all_iff w3_def)
    with lo sq sl show ?thesis by (simp add: writtenFor_def list_ex_iff)
  qed
  have wr: "writtenFor (backend w2) me lid"
    using inL lo sq sl assms(2) by (simp add: bw2 writtenFor_def list_ex_iff L_def [symmetric])
  have un2: "\<not> hasUnsyncedProgress w2" unfolding w2 by (rule hasUnsynced_markAsSynced)
  have okk: "fst (syncUnsyncedProgress hp me v)" by (simp add: sy)
  show ?thesis
    unfolding w1_def [symmetric] v_def [symmetric] w2_def [symmetric] L_def [symmetric]
              K_def [symmetric]
    using load1 inK un1 b1 okk un2 wr inL bw2 by simp
qed

lemma replayable_offlineWorld: "replayable everyone (backend offlineWorld) ''alice'' 2"
  by (simp add: replayable_def offlineWorld_def aliceFirst_def toText_2 trail_simps
                sequenceNumber_location2 ensureProgressInitialized_def afterFirst_def)

theorem completion_survives_network_failure_witness:
  "networkDown offlineWorld
   \<and> ''location_2'' = ''location_'' @ toText (locationNumberOf ''location_2'')
   \<and> everyone ''alice'' user
   \<and> list_all (replayable everyone (backend offlineWorld) ''alice'')
         (completedLocations (keptRecord ''location_2'' [] offlineWorld))
   \<and> hasUnsyncedProgress (snd (handleComplete everyone ''alice'' (Some ''location_2'') offlineWorld))
   \<and> completedOf (backend (snd (handleComplete everyone ''alice'' (Some ''location_2'') offlineWorld))) ''alice''
     = [1]
   \<and> fst (syncUnsyncedProgress everyone ''alice''
            (restored (snd (handleComplete everyone ''alice'' (Some ''location_2'') offlineWorld))))
   \<and> 2 \<in> set (completedOf
              (backend (snd (syncUnsyncedProgress everyone ''alice''
                 (restored (snd (handleComplete everyone ''alice'' (Some ''location_2'') offlineWorld))))))
              ''alice'')"
proof -
  have l: "''location_2'' = ''location_'' @ toText (locationNumberOf ''location_2'')"
    by (simp add: locationNumberOf_2 toText_2)
  have u: "everyone ''alice'' user" by (rule everyone_user)
  have r: "list_all (replayable everyone (backend offlineWorld) ''alice'')
             (completedLocations (keptRecord ''location_2'' [] offlineWorld))"
    by (simp add: keptRecord_offlineWorld queuedSecond_def replayable_offlineWorld)
  note T = completion_survives_network_failure
             [of offlineWorld "''location_2''" everyone "''alice''", OF networkDown_offlineWorld l u r]
  have t2: "hasUnsyncedProgress (snd (handleComplete everyone ''alice'' (Some ''location_2'') offlineWorld))"
    using T by (elim conjE)
  have t3: "backend (snd (handleComplete everyone ''alice'' (Some ''location_2'') offlineWorld))
            = backend offlineWorld"
    using T by (elim conjE)
  have t3': "completedOf (backend (snd (handleComplete everyone ''alice'' (Some ''location_2'') offlineWorld)))
               ''alice'' = [1]"
    unfolding t3 by (simp add: offlineWorld_def aliceFirst_def completedOf_def afterFirst_def)
  have t4: "fst (syncUnsyncedProgress everyone ''alice''
                  (restored (snd (handleComplete everyone ''alice'' (Some ''location_2'') offlineWorld))))"
    using T by (elim conjE)
  have t5: "locationNumberOf ''location_2''
            \<in> set (completedOf
              (backend (snd (syncUnsyncedProgress everyone ''alice''
                 (restored (snd (handleComplete everyone ''alice'' (Some ''location_2'') offlineWorld))))))
              ''alice'')"
    using T by (elim conjE)
  show ?thesis
    by (intro conjI networkDown_offlineWorld l u r t2 t3' t4 t5 [unfolded locationNumberOf_2])
qed

text \<open>
  C1 (as stated) fails. When every call fails with \<open>Load failed\<close>, a message in which the code
  finds none of its three words, pressing Done for location 2 writes nothing to the cache;
  once the network delivers again the reconciliation has nothing to replay, and the canister
  still holds location 1 only.
\<close>

theorem unrecognised_network_failure_loses_completion:
  "\<not> recognisedFailure (thereafter (strandedWorld (Some afterFirst) 0))
   \<and> loadProgressFromLocalStorage
       (snd (handleComplete everyone ''alice'' (Some ''location_2'') (strandedWorld (Some afterFirst) 0)))
     = None
   \<and> \<not> hasUnsyncedProgress
         (snd (handleComplete everyone ''alice'' (Some ''location_2'') (strandedWorld (Some afterFirst) 0)))
   \<and> syncUnsyncedProgress everyone ''alice''
       (restored (snd (handleComplete everyone ''alice'' (Some ''location_2'')
                         (strandedWorld (Some afterFirst) 0))))
     = (True,
        restored (snd (handleComplete everyone ''alice'' (Some ''location_2'')
                         (strandedWorld (Some afterFirst) 0))))
   \<and> completedOf
       (backend (restored (snd (handleComplete everyone ''alice'' (Some ''location_2'')
                                 (strandedWorld (Some afterFirst) 0)))))
       ''alice''
     = [1]"
  unfolding handleComplete_strandedWorld
  by (simp add: strandedWorld_def not_recognised_load_failed restored_def
                loadProgressFromLocalStorage_def hasUnsyncedProgress_def syncUnsyncedProgress_def
                aliceFirst_def completedOf_def afterFirst_def)

section \<open>Refetches that replace an unsynced cache\<close>

text \<open>
  \<open>queryFn\<close> does not look at what \<open>syncUnsyncedProgress\<close> returns. In the example the
  cache holds locations 1 and 2, unsynced, and the canister holds location 1; the read of
  the reconciliation is delivered, the replayed write fails on the network, and the read of
  the query function is delivered again. The answer of the canister is then saved over the
  cache and marked synced: location 2 is no longer in the cache and was never written to
  the canister.
\<close>

lemma read_delivered_queuedWorld:
  "actor_getUserProgress everyone ''alice'' (queuedWorld aliceFirst (Delivered # net))
   = (Inr afterFirst, queuedWorld aliceFirst net)"
  by (simp add: actor_getUserProgress_def nextOutcome_def queuedWorld_def getUserProgress_def
                everyone_def ensureProgressInitialized_def aliceFirst_def)

lemma sync_interrupted:
  "syncUnsyncedProgress everyone ''alice'' (queuedWorld aliceFirst [Delivered, Failed ''Failed to fetch''])
   = (False, queuedWorld aliceFirst [])"
proof -
  have r: "actor_updateProgress everyone ''alice'' ''location_2'' []
             (queuedWorld aliceFirst [Failed ''Failed to fetch''])
           = (Inl ''Failed to fetch'', queuedWorld aliceFirst [])"
    by (simp add: actor_updateProgress_def nextOutcome_def queuedWorld_def)
  show ?thesis
    unfolding sync_read_succeeds [OF hasUnsynced_queuedWorld load_queuedWorld read_delivered_queuedWorld]
      newLocations_queued currentSequences_cachedTwo
    by (simp add: toText_2 r)
qed

lemma queryFn_replaces_unsynced_cache:
  "loadProgressFromLocalStorage (queuedWorld aliceFirst [Delivered, Failed ''Failed to fetch''])
   = Some cachedTwo
   \<and> hasUnsyncedProgress (queuedWorld aliceFirst [Delivered, Failed ''Failed to fetch''])
   \<and> fst (queryFn everyone ''alice'' (queuedWorld aliceFirst [Delivered, Failed ''Failed to fetch'']))
     = afterFirst
   \<and> loadProgressFromLocalStorage
       (snd (queryFn everyone ''alice'' (queuedWorld aliceFirst [Delivered, Failed ''Failed to fetch''])))
     = Some afterFirst
   \<and> \<not> hasUnsyncedProgress
         (snd (queryFn everyone ''alice'' (queuedWorld aliceFirst [Delivered, Failed ''Failed to fetch''])))
   \<and> completedOf
       (backend (snd (queryFn everyone ''alice''
                        (queuedWorld aliceFirst [Delivered, Failed ''Failed to fetch'']))))
       ''alice''
     = [1]"
proof -
  let ?s = "(saveProgressToLocalStorage afterFirst (queuedWorld aliceFirst []))\<lparr>queryData := Some afterFirst\<rparr>"
  have q: "queryFn everyone ''alice'' (queuedWorld aliceFirst [Delivered, Failed ''Failed to fetch''])
           = (afterFirst, ?s)"
    by (simp add: queryFn_def sync_interrupted read_first_queuedWorld)
  have l: "loadProgressFromLocalStorage ?s = Some afterFirst"
    using load_cong [of ?s "saveProgressToLocalStorage afterFirst (queuedWorld aliceFirst [])"]
    by (simp add: load_save)
  have u: "\<not> hasUnsyncedProgress ?s"
    by (simp add: hasUnsyncedProgress_def saveProgressToLocalStorage_def)
  have c: "completedOf (backend ?s) ''alice'' = [1]"
    by (simp add: save_frame queuedWorld_def aliceFirst_def completedOf_def afterFirst_def)
  show ?thesis
    unfolding q fst_conv snd_conv
    by (intro conjI load_queuedWorld hasUnsynced_queuedWorld refl l u c)
qed

subsection \<open>Writes that fail while reads are delivered\<close>

text \<open>
  The same happens within \<open>handleComplete\<close> when the calls of \<open>updateProgress\<close> fail on the
  network and the calls of \<open>getUserProgress\<close> are delivered. Each attempt saves location 2 to
  the cache, unsynced; the refetch that follows reads the canister, fails to replay the write,
  reads again and saves the answer over the cache. The user is told that the progress is
  saved locally, while cache, query data and canister hold location 1 only.
\<close>

lemma saveLocally_then_present:
  "locationNumberOf lid \<in> set (completedLocations (cachedOrDefault (saveLocallyForLaterSync lid ws w)))"
  using load_saveLocally [of lid ws w] keptRecord_member [of lid ws w]
  by (simp add: cachedOrDefault_def)

lemma saveLocally_again:
  assumes "localStorage w' = localStorage (saveLocallyForLaterSync lid ws w)"
  shows "saveLocallyForLaterSync lid ws' w' = w'"
proof -
  have "cachedOrDefault w' = cachedOrDefault (saveLocallyForLaterSync lid ws w)"
    using assms by (rule cachedOrDefault_cong)
  then have "locationNumberOf lid \<in> set (completedLocations (cachedOrDefault w'))"
    using saveLocally_then_present by simp
  then show ?thesis by (rule saveLocally_present)
qed

lemma saveLocally_localStorage_cong:
  assumes "localStorage w' = localStorage w" and "clock w' = clock w"
  shows "localStorage (saveLocallyForLaterSync lid ws w') = localStorage (saveLocallyForLaterSync lid ws w)"
proof -
  have c: "cachedOrDefault w' = cachedOrDefault w" using assms(1) by (rule cachedOrDefault_cong)
  show ?thesis
  proof (cases "locationNumberOf lid \<in> set (completedLocations (cachedOrDefault w))")
    case True
    with c assms(1) show ?thesis by (simp add: saveLocally_present)
  next
    case False
    with c assms show ?thesis
      by (simp add: saveLocally_absent markProgressAsUnsynced_def saveProgressToLocalStorage_def)
  qed
qed

lemma mutationFn_failed:
  assumes "network w = Failed msg # rest" and "isNetworkError (if msg = [] then ''Error'' else msg)"
  shows "mutationFn hp me lid ws w
         = (Inl networkErrorMessage, saveLocallyForLaterSync lid ws (w\<lparr>network := rest\<rparr>))"
  using assms
  by (simp add: mutationFn_def actor_updateProgress_def nextOutcome_def catchUpdateError_def
                networkErrorMessage_def)

lemma mutationAttempts_failed:
  assumes "network w = replicate (Suc (retry - failureCount)) (Failed msg) @ rest"
    and "failureCount \<le> retry"
    and "isNetworkError (if msg = [] then ''Error'' else msg)"
  shows "fst (mutationAttempts hp me lid ws retry failureCount w) = Inl networkErrorMessage
         \<and> network (snd (mutationAttempts hp me lid ws retry failureCount w)) = rest
         \<and> thereafter (snd (mutationAttempts hp me lid ws retry failureCount w)) = thereafter w
         \<and> backend (snd (mutationAttempts hp me lid ws retry failureCount w)) = backend w
         \<and> localStorage (snd (mutationAttempts hp me lid ws retry failureCount w))
           = localStorage (saveLocallyForLaterSync lid ws w)"
  using assms(1,2)
proof (induction "retry - failureCount" arbitrary: failureCount w)
  case 0
  then have n: "network w = Failed msg # rest" and nl: "\<not> failureCount < retry" by simp_all
  have ls: "localStorage (saveLocallyForLaterSync lid ws (w\<lparr>network := rest\<rparr>))
            = localStorage (saveLocallyForLaterSync lid ws w)"
    by (rule saveLocally_localStorage_cong) simp_all
  have st: "mutationAttempts hp me lid ws retry failureCount w
            = (Inl networkErrorMessage, saveLocallyForLaterSync lid ws (w\<lparr>network := rest\<rparr>))"
    using nl by (subst mutationAttempts.simps) (simp add: mutationFn_failed [OF n assms(3)])
  show ?case unfolding st using ls by (simp add: saveLocally_frame saveLocally_thereafter)
next
  case (Suc k)
  then have lt: "failureCount < retry" by simp
  have k: "k = retry - Suc failureCount" using Suc.hyps(2) by simp
  define later where "later = replicate (Suc (retry - Suc failureCount)) (Failed msg) @ rest"
  have "Suc (retry - failureCount) = Suc (Suc (retry - Suc failureCount))" using lt by simp
  then have n: "network w = Failed msg # later"
    using Suc.prems(1) by (simp add: later_def)
  define w1 where "w1 = saveLocallyForLaterSync lid ws (w\<lparr>network := later\<rparr>)"
  define w2 where "w2 = sleep (min (500 * 2 ^ failureCount) 2000) w1"
  have m: "mutationFn hp me lid ws w = (Inl networkErrorMessage, w1)"
    unfolding w1_def by (rule mutationFn_failed [OF n assms(3)])
  have f1: "network w1 = later" "backend w1 = backend w" "thereafter w1 = thereafter w"
    by (simp_all add: w1_def saveLocally_frame saveLocally_thereafter)
  have f2: "network w2 = later" "backend w2 = backend w1" "thereafter w2 = thereafter w1"
    "localStorage w2 = localStorage w1"
    by (simp_all add: w2_def sleep_frame thereafter_frame f1)
  have n2: "network w2 = replicate (Suc (retry - Suc failureCount)) (Failed msg) @ rest"
    using f2(1) by (simp only: later_def)
  have le: "Suc failureCount \<le> retry" using lt by simp
  note IH = Suc.hyps(1) [OF k n2 le]
  have ls1: "localStorage w1 = localStorage (saveLocallyForLaterSync lid ws w)"
    unfolding w1_def by (rule saveLocally_localStorage_cong) simp_all
  have "localStorage w2 = localStorage (saveLocallyForLaterSync lid ws w)"
    using ls1 f2(4) by simp
  then have again: "saveLocallyForLaterSync lid ws w2 = w2" by (rule saveLocally_again)
  have st: "mutationAttempts hp me lid ws retry failureCount w
            = mutationAttempts hp me lid ws retry (Suc failureCount) w2"
    using lt m by (subst mutationAttempts.simps) (simp add: w2_def)
  have a: "fst (mutationAttempts hp me lid ws retry (Suc failureCount) w2) = Inl networkErrorMessage"
    using IH by (rule conjunct1)
  have b: "network (snd (mutationAttempts hp me lid ws retry (Suc failureCount) w2)) = rest"
    using IH by (elim conjE)
  have t: "thereafter (snd (mutationAttempts hp me lid ws retry (Suc failureCount) w2)) = thereafter w"
    using IH f2(3) f1(3) by (elim conjE) simp
  have c: "backend (snd (mutationAttempts hp me lid ws retry (Suc failureCount) w2)) = backend w"
    using IH f2(2) f1(2) by (elim conjE) simp
  have e: "localStorage (snd (mutationAttempts hp me lid ws retry (Suc failureCount) w2))
           = localStorage (saveLocallyForLaterSync lid ws w)"
    using IH again f2(4) ls1 by (elim conjE) simp
  show ?case unfolding st by (intro conjI a b t c e)
qed

lemma hasUnsynced_saveLocally:
  "locationNumberOf lid \<notin> set (completedLocations (cachedOrDefault w))
   \<Longrightarrow> hasUnsyncedProgress (saveLocallyForLaterSync lid ws w)"
  by (simp add: saveLocally_absent hasUnsyncedProgress_def markProgressAsUnsynced_def
                saveProgressToLocalStorage_def)

lemma getUserProgress_aliceFirst: "getUserProgress everyone aliceFirst ''alice'' = Inr afterFirst"
  by (simp add: getUserProgress_def everyone_def ensureProgressInitialized_def aliceFirst_def)

lemma refetch_replaces_cache:
  assumes "backend s = aliceFirst" and "thereafter s = Delivered"
    and "network s = Delivered # Failed m # Delivered # rest"
    and "hasUnsyncedProgress s" and "loadProgressFromLocalStorage s = Some K"
    and "2 \<in> set (completedLocations K)"
  shows "invalidateQueries everyone ''alice'' s
         = (saveProgressToLocalStorage afterFirst (s\<lparr>network := rest\<rparr>))\<lparr>queryData := Some afterFirst\<rparr>"
proof -
  define s1 where "s1 = s\<lparr>network := Failed m # Delivered # rest\<rparr>"
  define s2 where "s2 = s\<lparr>network := Delivered # rest\<rparr>"
  have r1: "actor_getUserProgress everyone ''alice'' s = (Inr afterFirst, s1)"
    using assms(1,3)
    by (simp add: actor_getUserProgress_def nextOutcome_def getUserProgress_aliceFirst s1_def)
  have "2 \<in> set (newLocationsOf K afterFirst)"
    using assms(6) by (simp add: set_newLocationsOf afterFirst_def)
  then obtain k ks where new: "newLocationsOf K afterFirst = k # ks"
    by (cases "newLocationsOf K afterFirst") auto
  have r2: "\<And>lid ws. actor_updateProgress everyone ''alice'' lid ws s1 = (Inl m, s2)"
    by (simp add: actor_updateProgress_def nextOutcome_def s1_def s2_def)
  have sy: "syncUnsyncedProgress everyone ''alice'' s = (False, s2)"
    unfolding sync_read_succeeds [OF assms(4,5) r1] new by (simp add: r2)
  have r3: "actor_getUserProgress everyone ''alice'' s2 = (Inr afterFirst, s\<lparr>network := rest\<rparr>)"
    using assms(1)
    by (simp add: actor_getUserProgress_def nextOutcome_def getUserProgress_aliceFirst s2_def)
  show ?thesis by (simp add: invalidateQueries_def queryFn_def sy r3)
qed

lemma mutateAsync_halfOpen:
  assumes "backend s = aliceFirst" and "thereafter s = Delivered"
    and "network s = replicate 4 (Failed ''Failed to fetch'')
                     @ Delivered # Failed ''Failed to fetch'' # Delivered # rest"
    and "completedLocations (cachedOrDefault s) = [] \<or> completedLocations (cachedOrDefault s) = [1]"
  shows "fst (mutateAsync everyone ''alice'' ''location_2'' [] s) = Inl networkErrorMessage
         \<and> backend (snd (mutateAsync everyone ''alice'' ''location_2'' [] s)) = aliceFirst
         \<and> thereafter (snd (mutateAsync everyone ''alice'' ''location_2'' [] s)) = Delivered
         \<and> network (snd (mutateAsync everyone ''alice'' ''location_2'' [] s)) = rest
         \<and> loadProgressFromLocalStorage (snd (mutateAsync everyone ''alice'' ''location_2'' [] s))
           = Some afterFirst
         \<and> \<not> hasUnsyncedProgress (snd (mutateAsync everyone ''alice'' ''location_2'' [] s))
         \<and> queryData (snd (mutateAsync everyone ''alice'' ''location_2'' [] s)) = Some afterFirst"
proof -
  define s1 where "s1 = snd (onMutate ''location_2'' s)"
  define s2 where "s2 = snd (mutationAttempts everyone ''alice'' ''location_2'' [] 3 0 s1)"
  have f1: "network s1 = network s" "backend s1 = backend s" "localStorage s1 = localStorage s"
    "thereafter s1 = thereafter s"
    by (simp_all add: s1_def onMutate_frame thereafter_frame)
  have "replicate 4 (Failed ''Failed to fetch'') = replicate (Suc (3 - 0)) (Failed ''Failed to fetch'')"
    by (simp add: numeral_eq_Suc)
  then have n1: "network s1 = replicate (Suc (3 - 0)) (Failed ''Failed to fetch'')
                             @ (Delivered # Failed ''Failed to fetch'' # Delivered # rest)"
    using assms(3) f1(1) by simp
  have le: "(0::nat) \<le> 3" by simp
  have ne: "isNetworkError (if ''Failed to fetch'' = [] then ''Error'' else ''Failed to fetch'')"
    by (simp add: isNetworkError_failed_to_fetch)
  note A = mutationAttempts_failed [OF n1 le ne, of everyone "''alice''" "''location_2''" "[]",
                                    folded s2_def]
  have a: "fst (mutationAttempts everyone ''alice'' ''location_2'' [] 3 0 s1) = Inl networkErrorMessage"
    using A by (rule conjunct1)
  have n2: "network s2 = Delivered # Failed ''Failed to fetch'' # Delivered # rest"
    using A by (elim conjE)
  have t2: "thereafter s2 = Delivered" using A f1(4) assms(2) by (elim conjE) simp
  have b2: "backend s2 = aliceFirst" using A f1(2) assms(1) by (elim conjE) simp
  have l2: "localStorage s2 = localStorage (saveLocallyForLaterSync ''location_2'' [] s1)"
    using A by (elim conjE)
  have c1: "cachedOrDefault s1 = cachedOrDefault s" by (rule cachedOrDefault_cong [OF f1(3)])
  have absent: "locationNumberOf ''location_2'' \<notin> set (completedLocations (cachedOrDefault s1))"
    using assms(4) by (auto simp: c1 locationNumberOf_2)
  have u2: "hasUnsyncedProgress s2"
    using hasUnsynced_cong [OF l2] hasUnsynced_saveLocally [OF absent] by simp
  have ld2: "loadProgressFromLocalStorage s2 = Some (keptRecord ''location_2'' [] s1)"
    using load_cong [OF l2] by (simp add: load_saveLocally)
  have in2: "2 \<in> set (completedLocations (keptRecord ''location_2'' [] s1))"
    using keptRecord_member [of "''location_2''" "[]" s1] by (simp add: locationNumberOf_2)
  have eq: "mutateAsync everyone ''alice'' ''location_2'' [] s
            = (Inl networkErrorMessage, invalidateQueries everyone ''alice'' s2)"
    using a
    by (simp add: mutateAsync_def split_beta onError_network onSettled_def s1_def [symmetric]
                  s2_def [symmetric])
  note R = refetch_replaces_cache [OF b2 t2 n2 u2 ld2 in2]
  have ld: "loadProgressFromLocalStorage
              ((saveProgressToLocalStorage afterFirst (s2\<lparr>network := rest\<rparr>))\<lparr>queryData := Some afterFirst\<rparr>)
            = Some afterFirst"
    using load_cong [of "(saveProgressToLocalStorage afterFirst (s2\<lparr>network := rest\<rparr>))\<lparr>queryData := Some afterFirst\<rparr>"
                        "saveProgressToLocalStorage afterFirst (s2\<lparr>network := rest\<rparr>)"]
    by (simp add: load_save)
  have un: "\<not> hasUnsyncedProgress
                ((saveProgressToLocalStorage afterFirst (s2\<lparr>network := rest\<rparr>))\<lparr>queryData := Some afterFirst\<rparr>)"
    by (simp add: hasUnsyncedProgress_def saveProgressToLocalStorage_def)
  show ?thesis
    unfolding eq R fst_conv snd_conv
    using ld un by (simp add: save_frame thereafter_frame b2 t2)
qed

lemma handleComplete_halfOpenWorld:
  "fst (handleComplete everyone ''alice'' (Some ''location_2'') halfOpenWorld)
     = (ToastWarning ''Progress saved locally. Will sync when connection is restored.'', True)
   \<and> loadProgressFromLocalStorage (snd (handleComplete everyone ''alice'' (Some ''location_2'') halfOpenWorld))
     = Some afterFirst
   \<and> \<not> hasUnsyncedProgress (snd (handleComplete everyone ''alice'' (Some ''location_2'') halfOpenWorld))
   \<and> queryData (snd (handleComplete everyone ''alice'' (Some ''location_2'') halfOpenWorld))
     = Some afterFirst
   \<and> completedOf (backend (snd (handleComplete everyone ''alice'' (Some ''location_2'') halfOpenWorld)))
        ''alice'' = [1]"
proof -
  let ?round = "replicate 4 (Failed ''Failed to fetch'') @ [Delivered, Failed ''Failed to fetch'', Delivered]"
  define I where "I = (\<lambda>(i::nat) s.
       backend s = aliceFirst \<and> thereafter s = Delivered
       \<and> network s = concat (replicate (3 - i) ?round)
       \<and> (if i = 0 then localStorage s = None
           else loadProgressFromLocalStorage s = Some afterFirst \<and> \<not> hasUnsyncedProgress s
                \<and> queryData s = Some afterFirst))"
  have I0: "I 0 halfOpenWorld" by (simp add: I_def halfOpenWorld_def)
  have step: "fst (mutateAsync everyone ''alice'' ''location_2'' [] s) = Inl networkErrorMessage
              \<and> I (Suc i) (if i < 2 then sleep (500 * 2 ^ i) (snd (mutateAsync everyone ''alice'' ''location_2'' [] s))
                           else snd (mutateAsync everyone ''alice'' ''location_2'' [] s))"
    if le: "i \<le> 2" and inv: "I i s" for i s
  proof -
    have b: "backend s = aliceFirst" and t: "thereafter s = Delivered" using inv by (simp_all add: I_def)
    have "3 - i = Suc (3 - Suc i)" using le by simp
    then have "concat (replicate (3 - i) ?round) = ?round @ concat (replicate (3 - Suc i) ?round)"
      by (simp only: replicate_Suc concat.simps)
    then have n: "network s = replicate 4 (Failed ''Failed to fetch'')
                     @ Delivered # Failed ''Failed to fetch'' # Delivered # concat (replicate (3 - Suc i) ?round)"
      using inv by (simp add: I_def)
    have c: "completedLocations (cachedOrDefault s) = [] \<or> completedLocations (cachedOrDefault s) = [1]"
    proof (cases "i = 0")
      case True
      with inv have "localStorage s = None" by (simp add: I_def)
      then show ?thesis
        by (simp add: cachedOrDefault_def loadProgressFromLocalStorage_def defaultProgress_def)
    next
      case False
      with inv have "loadProgressFromLocalStorage s = Some afterFirst" by (simp add: I_def)
      then show ?thesis by (simp add: cachedOrDefault_def afterFirst_def)
    qed
    note M = mutateAsync_halfOpen [OF b t n c]
    define s1 where "s1 = snd (mutateAsync everyone ''alice'' ''location_2'' [] s)"
    have a: "fst (mutateAsync everyone ''alice'' ''location_2'' [] s) = Inl networkErrorMessage"
      using M by (rule conjunct1)
    have i1: "I (Suc i) s1" using M by (simp add: I_def s1_def)
    have "I (Suc i) (sleep (500 * 2 ^ i) s1)"
      using i1 load_cong [of "sleep (500 * 2 ^ i) s1" s1] hasUnsynced_cong [of "sleep (500 * 2 ^ i) s1" s1]
      by (simp add: I_def sleep_frame thereafter_frame)
    with i1 have "I (Suc i) (if i < 2 then sleep (500 * 2 ^ i) s1 else s1)" by simp
    then have "I (Suc i) (if i < 2 then sleep (500 * 2 ^ i) (snd (mutateAsync everyone ''alice'' ''location_2'' [] s))
                          else snd (mutateAsync everyone ''alice'' ''location_2'' [] s))"
      unfolding s1_def .
    with a show ?thesis by (rule conjI)
  qed
  have R: "fst (retryLoop sleep (mutateAsync everyone ''alice'' ''location_2'' []) 2 0 None halfOpenWorld)
             = \<lparr>success = False, result = None, error = Some networkErrorMessage, attempts = 2 + 1\<rparr>
           \<and> I (Suc 2) (snd (retryLoop sleep (mutateAsync everyone ''alice'' ''location_2'' []) 2 0 None
                               halfOpenWorld))"
    by (rule retryLoop_always_failing [where I = I, OF I0]) (use step in simp_all)
  define br where "br = fst (retryWithBackoff sleep (mutateAsync everyone ''alice'' ''location_2'' []) 2 halfOpenWorld)"
  define w3 where "w3 = snd (retryWithBackoff sleep (mutateAsync everyone ''alice'' ''location_2'' []) 2 halfOpenWorld)"
  have br: "br = \<lparr>success = False, result = None, error = Some networkErrorMessage, attempts = 2 + 1\<rparr>"
    and i3: "I (Suc 2) w3"
    using R by (simp_all add: br_def w3_def retryWithBackoff_def)
  have ne: "networkErrorMessage \<noteq> []" by (simp add: networkErrorMessage_def)
  have hc: "handleComplete everyone ''alice'' (Some ''location_2'') halfOpenWorld
            = ((ToastWarning ''Progress saved locally. Will sync when connection is restored.'', True), w3)"
    using br ne includes_networkErrorMessage
    by (simp add: handleComplete_def split_beta Let_def br_def [symmetric] w3_def [symmetric])
  show ?thesis
    unfolding hc using i3
    by (simp add: I_def aliceFirst_def completedOf_def afterFirst_def)
qed

end
